theory Spec2Isabelle
  imports
    Main
    "HOL-Library.Char_ord"
    "HOL-Library.List_Lexorder"
    "HOL-Library.Sublist"
    "HOL-Library.Product_Lexorder"
    "HOL-Library.Multiset"
begin

section \<open>Data model (core/air.go)\<close>

text \<open>
  Go strings are byte sequences compared bytewise; \<open>string\<close> with the orders of
  \<open>Char_ord\<close> and \<open>List_Lexorder\<close> is the same order. The three enumerations of
  the source are \<open>type X string\<close> with named constants, so a value of such a type
  can be any string; they are modelled as strings.
\<close>

type_synonym AuthorityType = string
type_synonym ClaimType = string
type_synonym EdgeType = string

definition Sovereign :: AuthorityType where "Sovereign = ''sovereign''"
definition Legal :: AuthorityType where "Legal = ''legal''"
definition Regulatory :: AuthorityType where "Regulatory = ''regulatory''"
definition Organizational :: AuthorityType where "Organizational = ''organizational''"
definition Contractual :: AuthorityType where "Contractual = ''contractual''"

definition Permission :: ClaimType where "Permission = ''permission''"
definition Prohibition :: ClaimType where "Prohibition = ''prohibition''"
definition Obligation :: ClaimType where "Obligation = ''obligation''"
definition Delegation :: ClaimType where "Delegation = ''delegation''"

definition Delegates :: EdgeType where "Delegates = ''delegates''"
definition Revokes :: EdgeType where "Revokes = ''revokes''"
definition Supersedes :: EdgeType where "Supersedes = ''supersedes''"

lemmas type_consts =
  Sovereign_def Legal_def Regulatory_def Organizational_def Contractual_def
  Permission_def Prohibition_def Obligation_def Delegation_def
  Delegates_def Revokes_def Supersedes_def

text \<open>
  A value of type \<open>interface{}\<close> as the compiler inspects it: nil, a string, a
  \<open>[]string\<close>, a \<open>[]interface{}\<close>, a \<open>map[string]interface{}\<close>, or a boolean
  or integer (which no type assertion of the compiler accepts). A Go map is an
  association list read with \<open>map_of\<close>.
\<close>

datatype dyn =
    DNil
  | DBool bool
  | DInt int
  | DStr string
  | DStrs "string list"
  | DList "dyn list"
  | DMap "(string \<times> dyn) list"

text \<open>A \<open>time.Time\<close> is an instant; \<open>Before\<close> and \<open>After\<close> compare instants.\<close>

type_synonym Time = int

record Scope =
  Jurisdictions :: "string list"
  TimeStart :: "Time option"
  TimeEnd :: "Time option"
  Operations :: "string list"

record Claim =
  ID :: string
  Type :: ClaimType
  Subject :: string
  Action :: string
  Resource :: string
  Scope :: Scope
  Conditions :: "(string \<times> dyn) list option"
  SourceID :: string

record AuthoritySource =
  srcID :: string
  srcType :: AuthorityType
  Name :: string
  Description :: string
  Version :: string
  Metadata :: "(string \<times> dyn) list"

record Edge =
  FromID :: string
  ToID :: string
  EdgeType :: EdgeType

text \<open>\<open>Nodes\<close> is a Go map that may be nil: \<open>None\<close> is the nil map.\<close>

record AuthorityGraph =
  Nodes :: "(string \<times> Claim) list option"
  Edges :: "Edge list"

record AuthorityArtifact =
  artID :: string
  artSourceID :: string
  Claims :: "Claim list"
  Graph :: AuthorityGraph
  GeneratedAt :: Time

record CompilationSuccess =
  Artifact :: AuthorityArtifact
  Proof :: string

record CompilationFailure =
  FailureStage :: string
  ViolatedInvariant :: string
  InvolvedClaimIDs :: "string list"
  FailClosed :: bool

text \<open>The zero values of the structs (\<open>Claim{}\<close>, \<open>AuthorityArtifact{}\<close>).\<close>

definition zeroScope :: Scope where
  "zeroScope = \<lparr>Jurisdictions = [], TimeStart = None, TimeEnd = None, Operations = []\<rparr>"

definition zeroClaim :: Claim where
  "zeroClaim = \<lparr>ID = [], Type = [], Subject = [], Action = [], Resource = [],
     Scope = zeroScope, Conditions = None, SourceID = []\<rparr>"

definition zeroSource :: AuthoritySource where
  "zeroSource = \<lparr>srcID = [], srcType = [], Name = [], Description = [], Version = [],
     Metadata = []\<rparr>"

definition zeroArtifact :: AuthorityArtifact where
  "zeroArtifact = \<lparr>artID = [], artSourceID = [], Claims = [],
     Graph = \<lparr>Nodes = None, Edges = []\<rparr>, GeneratedAt = 0\<rparr>"

text \<open>Reading a Go map: a missing key (and any key of a nil map) gives the default.\<close>

definition mapGet :: "'v \<Rightarrow> (string \<times> 'v) list \<Rightarrow> string \<Rightarrow> 'v" where
  "mapGet d m k = (case map_of m k of None \<Rightarrow> d | Some v \<Rightarrow> v)"

definition mapKeys :: "(string \<times> 'v) list \<Rightarrow> string list" where
  "mapKeys m = remdups (map fst m)"

definition mapLen :: "(string \<times> 'v) list \<Rightarrow> nat" where
  "mapLen m = length (mapKeys m)"

definition mapSet :: "string \<Rightarrow> 'v \<Rightarrow> (string \<times> 'v) list \<Rightarrow> (string \<times> 'v) list" where
  "mapSet k v m = (k, v) # filter (\<lambda>kv. fst kv \<noteq> k) m"

definition nodesGet :: "(string \<times> Claim) list option \<Rightarrow> string \<Rightarrow> Claim" where
  "nodesGet ns k = (case ns of None \<Rightarrow> zeroClaim | Some m \<Rightarrow> mapGet zeroClaim m k)"

definition nodesHas :: "(string \<times> Claim) list option \<Rightarrow> string \<Rightarrow> bool" where
  "nodesHas ns k = (case ns of None \<Rightarrow> False | Some m \<Rightarrow> k \<in> set (mapKeys m))"

definition nodesKeys :: "(string \<times> Claim) list option \<Rightarrow> string list" where
  "nodesKeys ns = (case ns of None \<Rightarrow> [] | Some m \<Rightarrow> mapKeys m)"

definition nodesLen :: "(string \<times> Claim) list option \<Rightarrow> nat" where
  "nodesLen ns = length (nodesKeys ns)"

definition AuthorityTypeOrder :: "(string \<times> int) list" where
  "AuthorityTypeOrder =
     [(Sovereign, 0), (Legal, 1), (Regulatory, 2), (Organizational, 3), (Contractual, 4)]"

definition IsValidClaimType :: "ClaimType \<Rightarrow> bool" where
  "IsValidClaimType t =
     (t = Permission \<or> t = Prohibition \<or> t = Obligation \<or> t = Delegation)"

section \<open>Errors\<close>

text \<open>
  The error values of the package: the sentinels made with \<open>errors.New\<close>, the three
  error structs, and the error a cancelled context reports.
\<close>

datatype error =
    Sentinel string
  | ValidationError string string "error option"
  | CompilationError string string "string list" "error option"
  | ConflictError "string list" string
  | ContextError string

definition ErrEmptySourceID :: error where
  "ErrEmptySourceID = Sentinel ''source ID is empty''"
definition ErrCyclicGraph :: error where
  "ErrCyclicGraph = Sentinel ''authority graph contains cycles''"
definition ErrNilGraph :: error where
  "ErrNilGraph = Sentinel ''graph nodes map is nil''"
definition ErrInvalidEdgeReference :: error where
  "ErrInvalidEdgeReference = Sentinel ''edge references non-existent node''"

definition newValidationError :: "string \<Rightarrow> string \<Rightarrow> error option \<Rightarrow> error" where
  "newValidationError field message err = ValidationError field message err"

text \<open>\<open>%d\<close> of a length, and \<open>%v\<close> of a \<open>[]string\<close>.\<close>

fun itoa :: "nat \<Rightarrow> string" where
  "itoa n = (if n < 10 then [char_of (48 + n)]
             else itoa (n div 10) @ [char_of (48 + n mod 10)])"

declare itoa.simps [simp del]

fun joinWith :: "string \<Rightarrow> string list \<Rightarrow> string" where
  "joinWith sep [] = []"
| "joinWith sep [x] = x"
| "joinWith sep (x # y # ys) = x @ sep @ joinWith sep (y # ys)"

definition fmtStrings :: "string list \<Rightarrow> string" where
  "fmtStrings xs = ''['' @ joinWith '' '' xs @ '']''"

fun Error :: "error \<Rightarrow> string" where
  "Error (Sentinel msg) = msg"
| "Error (ValidationError field message None) =
     ''validation error on '' @ field @ '': '' @ message"
| "Error (ValidationError field message (Some e)) =
     ''validation error on '' @ field @ '': '' @ message @ '': '' @ Error e"
| "Error (CompilationError stage message ids None) =
     ''compilation error at '' @ stage @ '': '' @ message"
| "Error (CompilationError stage message ids (Some e)) =
     ''compilation error at '' @ stage @ '': '' @ message @ '': '' @ Error e"
| "Error (ConflictError ids message) =
     ''conflict resolution failed for claims '' @ fmtStrings ids @ '': '' @ message"
| "Error (ContextError msg) = msg"

section \<open>Library functions\<close>

text \<open>
  \<open>sort.Slice\<close> is the standard library's. On a slice of at most 12 elements it
  runs an insertion sort: each element in turn is swapped leftwards while it is less
  than its left neighbour, so elements that compare equal keep their order. That part
  is modelled as it runs (\<open>insertionSort\<close>).
\<close>

fun insertRev :: "('a \<Rightarrow> 'a \<Rightarrow> bool) \<Rightarrow> 'a \<Rightarrow> 'a list \<Rightarrow> 'a list" where
  "insertRev lt x [] = [x]"
| "insertRev lt x (y # ys) = (if lt x y then y # insertRev lt x ys else x # y # ys)"

definition insertionStep :: "('a \<Rightarrow> 'a \<Rightarrow> bool) \<Rightarrow> 'a list \<Rightarrow> 'a \<Rightarrow> 'a list" where
  "insertionStep lt pre x = rev (insertRev lt x (rev pre))"

definition insertionSort :: "('a \<Rightarrow> 'a \<Rightarrow> bool) \<Rightarrow> 'a list \<Rightarrow> 'a list" where
  "insertionSort lt xs = foldl (insertionStep lt) [] xs"

text \<open>
  On a longer slice \<open>sort.Slice\<close> runs a pattern-defeating quicksort, whose code
  is not part of the repository. What it returns there is a parameter of the model
  (a \<open>libsort\<close>), of which only the contract of \<open>sort.Slice\<close> is known: the
  result is a permutation of the slice, and it is in order when the \<open>less\<close>
  function is a strict weak ordering. Which of several equal elements comes first is
  not known.
\<close>

definition strictWeakOrder :: "('a \<Rightarrow> 'a \<Rightarrow> bool) \<Rightarrow> bool" where
  "strictWeakOrder lt =
     ((\<forall>a. \<not> lt a a) \<and> (\<forall>a b c. lt a b \<and> lt b c \<longrightarrow> lt a c) \<and>
      (\<forall>a b c. \<not> lt a b \<and> \<not> lt b c \<longrightarrow> \<not> lt a c))"

lemma mset_insertRev: "mset (insertRev lt x ys) = add_mset x (mset ys)"
  by (induction ys) auto

lemma mset_foldl_insertionStep:
  "mset (foldl (insertionStep lt) acc xs) = mset acc + mset xs"
  by (induction xs arbitrary: acc) (auto simp: insertionStep_def mset_insertRev)

lemma mset_insertionSort: "mset (insertionSort lt xs) = mset xs"
  by (simp add: insertionSort_def mset_foldl_insertionStep)

lemma set_insertRev: "set (insertRev lt x ys) = insert x (set ys)"
  by (induction ys) auto

lemma ordered_insertRev:
  assumes "strictWeakOrder lt"
  shows "sorted_wrt (\<lambda>a b. \<not> lt a b) ys \<Longrightarrow> sorted_wrt (\<lambda>a b. \<not> lt a b) (insertRev lt x ys)"
proof (induction ys)
  case Nil
  then show ?case by simp
next
  case (Cons y ys)
  from assms have asym: "\<And>a b. lt a b \<Longrightarrow> \<not> lt b a"
    and ntrans: "\<And>a b c. \<not> lt a b \<Longrightarrow> \<not> lt b c \<Longrightarrow> \<not> lt a c"
    unfolding strictWeakOrder_def by blast+
  show ?case
  proof (cases "lt x y")
    case True
    with Cons asym show ?thesis by (auto simp: set_insertRev)
  next
    case False
    with Cons ntrans show ?thesis by auto
  qed
qed

lemma ordered_foldl_insertionStep:
  assumes "strictWeakOrder lt"
  shows "sorted_wrt (\<lambda>a b. \<not> lt b a) acc \<Longrightarrow>
         sorted_wrt (\<lambda>a b. \<not> lt b a) (foldl (insertionStep lt) acc xs)"
proof (induction xs arbitrary: acc)
  case Nil
  then show ?case by simp
next
  case (Cons x xs)
  from Cons.prems have "sorted_wrt (\<lambda>a b. \<not> lt a b) (rev acc)"
    by (simp add: sorted_wrt_rev)
  from ordered_insertRev[OF assms this]
  have "sorted_wrt (\<lambda>a b. \<not> lt b a) (insertionStep lt acc x)"
    by (simp add: insertionStep_def sorted_wrt_rev)
  from Cons.IH[OF this] show ?case by simp
qed

lemma ordered_insertionSort:
  "strictWeakOrder lt \<Longrightarrow> sorted_wrt (\<lambda>a b. \<not> lt b a) (insertionSort lt xs)"
  unfolding insertionSort_def by (rule ordered_foldl_insertionStep) simp_all

typedef 'a libsort =
  "{f :: ('a \<Rightarrow> 'a \<Rightarrow> bool) \<Rightarrow> 'a list \<Rightarrow> 'a list.
      \<forall>lt xs. mset (f lt xs) = mset xs \<and>
        (strictWeakOrder lt \<longrightarrow> sorted_wrt (\<lambda>a b. \<not> lt b a) (f lt xs))}"
  morphisms runSort LibSort
proof
  show "insertionSort \<in> {f :: ('a \<Rightarrow> 'a \<Rightarrow> bool) \<Rightarrow> 'a list \<Rightarrow> 'a list.
      \<forall>lt xs. mset (f lt xs) = mset xs \<and>
        (strictWeakOrder lt \<longrightarrow> sorted_wrt (\<lambda>a b. \<not> lt b a) (f lt xs))}"
    by (simp add: mset_insertionSort ordered_insertionSort)
qed

definition sortSlice :: "'a libsort \<Rightarrow> ('a \<Rightarrow> 'a \<Rightarrow> bool) \<Rightarrow> 'a list \<Rightarrow> 'a list" where
  "sortSlice srt lt xs =
     (if length xs \<le> 12 then insertionSort lt xs else runSort srt lt xs)"

text \<open>
  The other library functions the compiler calls are parameters as well: parsing
  and formatting an RFC 3339 time, and the JSON encoder's rendering of a string
  (quotes and escapes included). \<open>sortEdges\<close> and \<open>sortClaims\<close> are
  \<open>sort.Slice\<close> on long slices of edges and of claims.
\<close>

record Env =
  timeParse :: "string \<Rightarrow> Time option"
  timeFormat :: "Time \<Rightarrow> string"
  jsonString :: "string \<Rightarrow> string"
  sortEdges :: "Edge libsort"
  sortClaims :: "Claim libsort"

section \<open>Validator\<close>

definition isScopeContained :: "Scope \<Rightarrow> Scope \<Rightarrow> bool" where
  "isScopeContained inner outer =
     (if \<not> list_all (\<lambda>j. j \<in> set (Jurisdictions outer)) (Jurisdictions inner) then False
      else if \<not> list_all (\<lambda>oper. oper \<in> set (Operations outer)) (Operations inner) then False
      else if (case (TimeStart outer, TimeStart inner) of
                 (Some ostart, Some istart) \<Rightarrow> istart < ostart
               | _ \<Rightarrow> False) then False
      else if (case (TimeEnd outer, TimeEnd inner) of
                 (Some oend, Some iend) \<Rightarrow> iend > oend
               | _ \<Rightarrow> False) then False
      else True)"

definition validateDelegationClaim :: "Claim \<Rightarrow> AuthorityGraph \<Rightarrow> bool" where
  "validateDelegationClaim claim graph =
     (let delegatorClaim =
            (case find (\<lambda>e. ToID e = ID claim \<and> EdgeType e = Delegates) (Edges graph) of
               None \<Rightarrow> zeroClaim
             | Some e \<Rightarrow> nodesGet (Nodes graph) (FromID e))
      in if ID delegatorClaim \<noteq> [] \<and> \<not> isScopeContained (Scope claim) (Scope delegatorClaim)
         then False else True)"

definition validateClaim :: "Claim \<Rightarrow> AuthorityGraph \<Rightarrow> bool" where
  "validateClaim claim graph =
     (if ID claim = [] then False
      else if Subject claim = [] then False
      else if Action claim = [] then False
      else if Resource claim = [] then False
      else if SourceID claim = [] then False
      else if Type claim = Delegation \<and> \<not> validateDelegationClaim claim graph then False
      else True)"

definition validateClaimWithErrors :: "Claim \<Rightarrow> AuthorityGraph \<Rightarrow> error option" where
  "validateClaimWithErrors claim graph =
     (if \<not> validateClaim claim graph
      then Some (ValidationError ''claim'' (''claim '' @ ID claim @ '' failed validation'') None)
      else None)"

text \<open>
  The depth-first search of \<open>hasCycles\<close>: \<open>visit\<close> marks the node and runs over
  all edges of the graph; \<open>visitEdges\<close> is that loop, on the edges still to look at.
  The two maps \<open>visited\<close> and \<open>recStack\<close> are passed through and returned.
\<close>

function visit :: "Edge list \<Rightarrow> string \<Rightarrow> string set \<Rightarrow> string set \<Rightarrow> bool \<times> string set \<times> string set"
  and visitEdges :: "Edge list \<Rightarrow> string \<Rightarrow> Edge list \<Rightarrow> string set \<Rightarrow> string set \<Rightarrow> bool \<times> string set \<times> string set"
where
  "visit E nodeID visited recStack =
     visitEdges E nodeID E (insert nodeID visited) (insert nodeID recStack)"
| "visitEdges E nodeID [] visited recStack = (False, visited, recStack - {nodeID})"
| "visitEdges E nodeID (edge # es) visited recStack =
     (if FromID edge = nodeID then
        (if ToID edge \<notin> visited then
           (case visit E (ToID edge) visited recStack of
              (True, visited', recStack') \<Rightarrow> (True, visited', recStack')
            | (False, visited', recStack') \<Rightarrow> visitEdges E nodeID es visited' recStack')
         else if ToID edge \<in> recStack then (True, visited, recStack)
         else visitEdges E nodeID es visited recStack)
      else visitEdges E nodeID es visited recStack)"
  by pat_completeness auto

text \<open>
  Termination: every nested call of \<open>visit\<close> is on a node not yet visited, and the
  visited set only grows, so the number of edge targets still unvisited decreases.
\<close>

lemma visit_mono:
  "visit_visitEdges_dom (Inl (E, n, vis, rs)) \<Longrightarrow> vis \<subseteq> fst (snd (visit E n vis rs))"
  "visit_visitEdges_dom (Inr (E, n, es, vis, rs)) \<Longrightarrow>
     vis \<subseteq> fst (snd (visitEdges E n es vis rs))"
proof (induct E n vis rs and E n es vis rs rule: visit_visitEdges.pinduct)
  case (1 E nodeID visited recStack)
  then show ?case by (auto simp: visit.psimps)
next
  case (2 E nodeID visited recStack)
  then show ?case by (simp add: visitEdges.psimps)
next
  case (3 E nodeID edge es visited recStack)
  show ?case
  proof (cases "FromID edge = nodeID \<and> ToID edge \<notin> visited")
    case False
    with 3 show ?thesis by (auto simp: visitEdges.psimps)
  next
    case True
    obtain b v r where res: "visit E (ToID edge) visited recStack = (b, v, r)"
      by (cases "visit E (ToID edge) visited recStack") auto
    have sub: "visited \<subseteq> v" using 3(2) True res by simp
    show ?thesis
    proof (cases b)
      case True
      with 3(1) sub res \<open>FromID edge = nodeID \<and> ToID edge \<notin> visited\<close> show ?thesis
        by (simp add: visitEdges.psimps)
    next
      case False
      have "v \<subseteq> fst (snd (visitEdges E nodeID es v r))"
        using 3(3) True res False by simp
      with 3(1) sub res False True show ?thesis
        by (auto simp: visitEdges.psimps)
    qed
  qed
qed

termination visit
proof (relation "inv_image (less_than <*lex*> less_than) (\<lambda>x. case x of
          Inl (E, n, vis, rs) \<Rightarrow> (card (ToID ` set E - insert n vis), length E + 1)
        | Inr (E, n, es, vis, rs) \<Rightarrow>
            (card ((ToID ` set E \<union> ToID ` set es) - vis), length es))", goal_cases)
  case 1
  show ?case by (intro wf_inv_image wf_lex_prod wf_less_than)
next
  case (2 E n vis rs)
  show ?case by simp
next
  case (3 E n edge es vis rs)
  have "card (ToID ` set E - insert (ToID edge) vis)
          < card (insert (ToID edge) (ToID ` set E \<union> ToID ` set es) - vis)"
    using 3 by (intro psubset_card_mono) auto
  then show ?case by simp
next
  case (4 E n edge es vis rs x y z w)
  then have "vis \<subseteq> z" using visit_mono(1)[of E "ToID edge" vis rs]
    by (metis fst_conv snd_conv)
  then have "card (ToID ` set E \<union> ToID ` set es - z)
          \<le> card (insert (ToID edge) (ToID ` set E \<union> ToID ` set es) - vis)"
    by (intro card_mono) auto
  then show ?case by auto
next
  case (5 E n edge es vis rs)
  have "card (ToID ` set E \<union> ToID ` set es - vis)
          \<le> card (insert (ToID edge) (ToID ` set E \<union> ToID ` set es) - vis)"
    by (intro card_mono) auto
  then show ?case by auto
next
  case (6 E n edge es vis rs)
  have "card (ToID ` set E \<union> ToID ` set es - vis)
          \<le> card (insert (ToID edge) (ToID ` set E \<union> ToID ` set es) - vis)"
    by (intro card_mono) auto
  then show ?case by auto
qed

text \<open>The outer loop of \<open>hasCycles\<close>, over the node IDs in sorted order.\<close>

fun visitAll :: "Edge list \<Rightarrow> string list \<Rightarrow> string set \<Rightarrow> string set \<Rightarrow> bool" where
  "visitAll E [] visited recStack = False"
| "visitAll E (nodeID # ns) visited recStack =
     (if nodeID \<notin> visited then
        (case visit E nodeID visited recStack of
           (True, visited', recStack') \<Rightarrow> True
         | (False, visited', recStack') \<Rightarrow> visitAll E ns visited' recStack')
      else visitAll E ns visited recStack)"

definition hasCycles :: "AuthorityGraph \<Rightarrow> bool" where
  "hasCycles graph = visitAll (Edges graph) (sort (nodesKeys (Nodes graph))) {} {}"

fun checkEdges :: "(string \<times> Claim) list option \<Rightarrow> Edge list \<Rightarrow> error option" where
  "checkEdges ns [] = None"
| "checkEdges ns (edge # es) =
     (if \<not> nodesHas ns (FromID edge) then
        Some (ValidationError ''edge.FromID''
                (''edge references non-existent node: '' @ FromID edge)
                (Some ErrInvalidEdgeReference))
      else if \<not> nodesHas ns (ToID edge) then
        Some (ValidationError ''edge.ToID''
                (''edge references non-existent node: '' @ ToID edge)
                (Some ErrInvalidEdgeReference))
      else if EdgeType edge = [] then
        Some (ValidationError ''edge.EdgeType'' ''edge type is required'' None)
      else checkEdges ns es)"

definition validateGraphWithErrors :: "AuthorityGraph \<Rightarrow> error option" where
  "validateGraphWithErrors graph =
     (if Nodes graph = None then Some ErrNilGraph
      else case checkEdges (Nodes graph) (Edges graph) of
             Some err \<Rightarrow> Some err
           | None \<Rightarrow> if hasCycles graph then Some ErrCyclicGraph else None)"

fun validateClaims :: "Claim list \<Rightarrow> AuthorityGraph \<Rightarrow> error option" where
  "validateClaims [] graph = None"
| "validateClaims (claim # cs) graph =
     (case validateClaimWithErrors claim graph of
        Some err \<Rightarrow> Some err
      | None \<Rightarrow> validateClaims cs graph)"

text \<open>The result is the returned error; \<open>None\<close> is the nil error.\<close>

definition ValidateAirWithErrors :: "AuthorityArtifact \<Rightarrow> error option" where
  "ValidateAirWithErrors artifact =
     (if Nodes (Graph artifact) = None then Some ErrNilGraph
      else if length (Claims artifact) = 0 \<and> nodesLen (Nodes (Graph artifact)) = 0 then None
      else case validateClaims (Claims artifact) (Graph artifact) of
             Some err \<Rightarrow> Some err
           | None \<Rightarrow> validateGraphWithErrors (Graph artifact))"

definition ValidateAir :: "AuthorityArtifact \<Rightarrow> bool" where
  "ValidateAir artifact = (ValidateAirWithErrors artifact = None)"

section \<open>Compiler: graph construction\<close>

definition edgeLess :: "Edge \<Rightarrow> Edge \<Rightarrow> bool" where
  "edgeLess a b =
     (if FromID a \<noteq> FromID b then FromID a < FromID b
      else if ToID a \<noteq> ToID b then ToID a < ToID b
      else EdgeType a < EdgeType b)"

text \<open>\<open>m[key].(string)\<close>: the value under the key when it is a string.\<close>

definition strField :: "(string \<times> dyn) list \<Rightarrow> string \<Rightarrow> string option" where
  "strField m k = (case map_of m k of Some (DStr s) \<Rightarrow> Some s | _ \<Rightarrow> None)"

definition condEdge :: "string list \<Rightarrow> Claim \<Rightarrow> (string \<times> dyn) list \<Rightarrow> string \<Rightarrow> EdgeType \<Rightarrow> Edge list" where
  "condEdge nodeIDs claim conds key ty =
     (case strField conds key of
        Some target \<Rightarrow>
          if target \<in> set nodeIDs
          then [\<lparr>FromID = ID claim, ToID = target, EdgeType = ty\<rparr>] else []
      | None \<Rightarrow> [])"

definition claimEdges :: "string list \<Rightarrow> Claim \<Rightarrow> Edge list" where
  "claimEdges nodeIDs claim =
     (case Conditions claim of
        None \<Rightarrow> []
      | Some conds \<Rightarrow>
          condEdge nodeIDs claim conds ''delegates_to'' Delegates @
          condEdge nodeIDs claim conds ''revokes'' Revokes @
          condEdge nodeIDs claim conds ''supersedes'' Supersedes)"

definition buildGraph :: "Env \<Rightarrow> Claim list \<Rightarrow> AuthorityGraph" where
  "buildGraph env claims =
     (let nodes = foldl (\<lambda>m claim. mapSet (ID claim) claim m) [] claims;
          edges = concat (map (claimEdges (mapKeys nodes)) claims)
      in \<lparr>Nodes = Some nodes, Edges = sortSlice (sortEdges env) edgeLess edges\<rparr>)"

section \<open>Compiler: precedence key\<close>

definition isDigit :: "char \<Rightarrow> bool" where
  "isDigit c = (CHR ''0'' \<le> c \<and> c \<le> CHR ''9'')"

definition isIdentChar :: "char \<Rightarrow> bool" where
  "isIdentChar c =
     (isDigit c \<or> (CHR ''A'' \<le> c \<and> c \<le> CHR ''Z'') \<or> (CHR ''a'' \<le> c \<and> c \<le> CHR ''z'')
      \<or> c = CHR ''-'')"

text \<open>
  \<open>semverRegex\<close>, read as the anchored matcher it is:
  \<^verbatim>\<open>^v?(\d+)(?:\.(\d+))?(?:\.(\d+))?(?:-(ids))?(?:\+(ids))?$\<close> with
  \<^verbatim>\<open>ids = [0-9A-Za-z-]+(?:\.[0-9A-Za-z-]+)*\<close>. Every choice of the expression is
  decided by the next character, so the match is found without backtracking.
  \<open>identsRest\<close> consumes one \<open>ids\<close> and returns what follows it; \<open>dotDigits\<close>
  is one optional numeric group.
\<close>

fun identsRest :: "bool \<Rightarrow> string \<Rightarrow> string option" where
  "identsRest seen [] = (if seen then Some [] else None)"
| "identsRest seen (c # cs) =
     (if isIdentChar c then identsRest True cs
      else if \<not> seen then None
      else if c = CHR ''.'' \<and> (case cs of [] \<Rightarrow> False | d # _ \<Rightarrow> isIdentChar d)
        then identsRest False cs
      else Some (c # cs))"

definition dotDigits :: "string \<Rightarrow> string \<times> string" where
  "dotDigits s =
     (case s of
        c # cs \<Rightarrow>
          if c = CHR ''.'' \<and> takeWhile isDigit cs \<noteq> []
          then (takeWhile isDigit cs, dropWhile isDigit cs) else ([], s)
      | [] \<Rightarrow> ([], s))"

definition optIdents :: "char \<Rightarrow> string \<Rightarrow> string" where
  "optIdents lead s =
     (case s of
        c # cs \<Rightarrow>
          if c = lead then (case identsRest False cs of Some r \<Rightarrow> r | None \<Rightarrow> s) else s
      | [] \<Rightarrow> s)"

definition semverMatch :: "string \<Rightarrow> (string \<times> string \<times> string) option" where
  "semverMatch s =
     (let s0 = (case s of c # cs \<Rightarrow> if c = CHR ''v'' then cs else s | [] \<Rightarrow> s);
          major = takeWhile isDigit s0;
          (minor, r2) = dotDigits (dropWhile isDigit s0);
          (patch, r3) = dotDigits r2;
          r5 = optIdents (CHR ''+'') (optIdents (CHR ''-'') r3)
      in if major \<noteq> [] \<and> r5 = [] then Some (major, minor, patch) else None)"

text \<open>
  \<open>strconv.Atoi\<close> on a string of decimal digits, with the error dropped as the
  caller does: the value, or the largest 64-bit integer when it does not fit.
\<close>

definition digitVal :: "char \<Rightarrow> int" where
  "digitVal c = int (of_char c) - 48"

definition Atoi :: "string \<Rightarrow> int" where
  "Atoi ds = min (foldl (\<lambda>acc c. 10 * acc + digitVal c) 0 ds) (2 ^ 63 - 1)"

definition parseVersion :: "string \<Rightarrow> int list" where
  "parseVersion versionStr =
     (if versionStr = [] then [0, 0, 0]
      else case semverMatch versionStr of
             None \<Rightarrow> [0, 0, 0]
           | Some (major, minor, patch) \<Rightarrow>
               [Atoi major,
                if minor \<noteq> [] then Atoi minor else 0,
                if patch \<noteq> [] then Atoi patch else 0])"

text \<open>
  The loop of \<open>getDelegationDepth\<close>: follow the first incoming Delegates edge
  upwards, counting, until a node has none, the parent ID is empty, or a node is
  met a second time (then 999).
\<close>

function depthLoop :: "Edge list \<Rightarrow> string \<Rightarrow> string set \<Rightarrow> int \<Rightarrow> int" where
  "depthLoop E currentID visited depth =
     (if currentID = [] then depth
      else if currentID \<in> visited then 999
      else case find (\<lambda>e. ToID e = currentID \<and> EdgeType e = Delegates) E of
             None \<Rightarrow> depth
           | Some edge \<Rightarrow>
               if FromID edge = [] then depth + 1
               else depthLoop E (FromID edge) (insert currentID visited) (depth + 1))"
  by pat_completeness auto
termination
proof (relation "measure (\<lambda>(E, cur, vis, d). card (ToID ` set E - vis))", goal_cases)
  case 1
  show ?case by simp
next
  case (2 E currentID visited depth edge)
  then have "edge \<in> set E" "ToID edge = currentID"
    by (auto simp: find_Some_iff)
  then have "ToID ` set E - insert currentID visited \<subset> ToID ` set E - visited"
    using 2 by auto
  then show ?case by (simp add: psubset_card_mono)
qed

declare depthLoop.simps [simp del]

definition getDelegationDepth :: "Claim \<Rightarrow> AuthorityGraph \<Rightarrow> int" where
  "getDelegationDepth claim graph = depthLoop (Edges graph) (ID claim) {} 0"

definition getScopeSpecificity :: "Scope \<Rightarrow> int" where
  "getScopeSpecificity scope =
     int (length (Jurisdictions scope)) + int (length (Operations scope))
       - (if TimeStart scope \<noteq> None then 10 else 0)
       - (if TimeEnd scope \<noteq> None then 10 else 0)"

text \<open>
  An element of the key slice (\<open>[]interface{}\<close>): an \<open>int\<close>, a \<open>[]int\<close> (the
  version), or a \<open>string\<close> (which \<open>comparePrecedenceKeys\<close> also handles).
\<close>

datatype keyElem = KInt int | KInts "int list" | KStr string

definition precedenceKey :: "AuthoritySource \<Rightarrow> Claim \<Rightarrow> (string \<times> int) list \<Rightarrow> AuthorityGraph \<Rightarrow> keyElem list" where
  "precedenceKey source claim authorityOrder graph =
     (let order = mapGet 0 authorityOrder (srcType source);
          version = parseVersion (Version source);
          depth = getDelegationDepth claim graph;
          specificity = getScopeSpecificity (Scope claim)
      in [KInt order, KInts version, KInt depth, KInt (- specificity)])"

text \<open>
  The type switch has a case for \<open>int\<close> and a case for \<open>string\<close>; an element of
  any other type falls through the switch and the loop goes on to the next index.
\<close>

fun comparePrecedenceKeys :: "keyElem list \<Rightarrow> keyElem list \<Rightarrow> int" where
  "comparePrecedenceKeys [] b = (if b \<noteq> [] then - 1 else 0)"
| "comparePrecedenceKeys (av # as) [] = 1"
| "comparePrecedenceKeys (av # as) (bv # bs) =
     (case av of
        KInt x \<Rightarrow>
          (case bv of
             KInt y \<Rightarrow> if x < y then - 1 else if x > y then 1 else comparePrecedenceKeys as bs
           | _ \<Rightarrow> - 1)
      | KStr x \<Rightarrow>
          (case bv of
             KStr y \<Rightarrow> if x < y then - 1 else if x > y then 1 else comparePrecedenceKeys as bs
           | _ \<Rightarrow> 1)
      | KInts x \<Rightarrow> comparePrecedenceKeys as bs)"

section \<open>Compiler: conflict resolution\<close>

text \<open>
  The compiler's only state is its table of sources, a map from source ID to source.
  \<open>sourcesCopy[id]\<close> is the zero source when the ID is not registered.
\<close>

type_synonym Sources = "string \<rightharpoonup> AuthoritySource"

definition sourceOf :: "Sources \<Rightarrow> string \<Rightarrow> AuthoritySource" where
  "sourceOf sources sid = (case sources sid of None \<Rightarrow> zeroSource | Some src \<Rightarrow> src)"

definition precedenceLess :: "Sources \<Rightarrow> AuthorityGraph \<Rightarrow> Claim \<Rightarrow> Claim \<Rightarrow> bool" where
  "precedenceLess sources graph claimA claimB =
     (let sourceA = sourceOf sources (SourceID claimA);
          sourceB = sourceOf sources (SourceID claimB);
          keyA = precedenceKey sourceA claimA AuthorityTypeOrder graph;
          keyB = precedenceKey sourceB claimB AuthorityTypeOrder graph
      in comparePrecedenceKeys keyA keyB < 0)"

text \<open>
  \<open>applyPrecedence\<close> returns the pair (winner, error) of the source: the winner is
  \<open>None\<close> for the nil pointer, and the error is nil on both paths. The slice is
  sorted in place; the caller afterwards reads it only as a set of IDs.
\<close>

definition applyPrecedence :: "Env \<Rightarrow> Sources \<Rightarrow> Claim list \<Rightarrow> AuthorityArtifact \<Rightarrow> Claim option \<times> error option" where
  "applyPrecedence env sources claims artifact =
     (if length claims = 0 then (None, None)
      else (Some (hd (sortSlice (sortClaims env) (precedenceLess sources (Graph artifact)) claims)),
            None))"

definition edgeTargets :: "EdgeType \<Rightarrow> Edge list \<Rightarrow> string list" where
  "edgeTargets ty edges = map ToID (filter (\<lambda>edge. EdgeType edge = ty) edges)"

definition applyRevocations :: "AuthorityArtifact \<Rightarrow> AuthorityArtifact" where
  "applyRevocations artifact =
     (let revokedIDs = edgeTargets Revokes (Edges (Graph artifact));
          newClaims = filter (\<lambda>claim. ID claim \<notin> set revokedIDs) (Claims artifact)
      in artifact\<lparr>Claims := newClaims\<rparr>)"

definition applySupersessions :: "AuthorityArtifact \<Rightarrow> AuthorityArtifact" where
  "applySupersessions artifact =
     (let supersededIDs = edgeTargets Supersedes (Edges (Graph artifact));
          newClaims = filter (\<lambda>claim. ID claim \<notin> set supersededIDs) (Claims artifact)
      in artifact\<lparr>Claims := newClaims\<rparr>)"

definition conflictKey :: "Claim \<Rightarrow> string" where
  "conflictKey claim = Subject claim @ '':'' @ Action claim @ '':'' @ Resource claim"

definition groupClaims :: "Claim list \<Rightarrow> (string \<times> Claim list) list" where
  "groupClaims claims =
     foldl (\<lambda>grouped claim.
              if Type claim = Delegation \<or> Type claim = Obligation then grouped
              else mapSet (conflictKey claim)
                     (mapGet [] grouped (conflictKey claim) @ [claim]) grouped)
       [] claims"

definition findConflicts :: "Claim list \<Rightarrow> Claim list list" where
  "findConflicts claims =
     (let grouped = groupClaims claims;
          keys = sort (mapKeys grouped)
      in concat (map (\<lambda>key.
           let group = mapGet [] grouped key
           in if length group > 1 \<and>
                 (length (remdups (map Type group)) > 1 \<or> length group > 1)
              then [group] else []) keys))"

definition losingClaimIDs :: "Claim list \<Rightarrow> Claim \<Rightarrow> string list" where
  "losingClaimIDs conflictGroup winner =
     map ID (filter (\<lambda>claim. ID claim \<noteq> ID winner) conflictGroup)"

fun resolveGroups :: "Env \<Rightarrow> Sources \<Rightarrow> Claim list list \<Rightarrow> AuthorityArtifact \<Rightarrow> error + AuthorityArtifact" where
  "resolveGroups env sources [] artifact = Inr artifact"
| "resolveGroups env sources (conflictGroup # rest) artifact =
     (case applyPrecedence env sources conflictGroup artifact of
        (_, Some err) \<Rightarrow> Inl err
      | (None, None) \<Rightarrow>
          Inl (ConflictError (map ID conflictGroup) ''unresolvable conflict - failing closed'')
      | (Some winner, None) \<Rightarrow>
          resolveGroups env sources rest
            (artifact\<lparr>Claims :=
               filter (\<lambda>claim. ID claim \<notin> set (losingClaimIDs conflictGroup winner))
                 (Claims artifact)\<rparr>))"

text \<open>\<open>ctxErr\<close> is what \<open>ctx.Err()\<close> returns when the function is entered.\<close>

definition ResolveConflicts :: "Env \<Rightarrow> error option \<Rightarrow> Sources \<Rightarrow> AuthorityArtifact \<Rightarrow> error + AuthorityArtifact" where
  "ResolveConflicts env ctxErr sources artifact =
     (case ctxErr of
        Some err \<Rightarrow> Inl err
      | None \<Rightarrow>
          (let artifact1 = applySupersessions (applyRevocations artifact);
               conflicts = findConflicts (Claims artifact1)
           in case resolveGroups env sources conflicts artifact1 of
                Inl err \<Rightarrow> Inl err
              | Inr artifact2 \<Rightarrow> Inr (artifact2\<lparr>Graph := buildGraph env (Claims artifact2)\<rparr>)))"

section \<open>Compiler: normalization\<close>

definition parseTime :: "Env \<Rightarrow> dyn option \<Rightarrow> Time option" where
  "parseTime env t = (case t of Some (DStr s) \<Rightarrow> timeParse env s | _ \<Rightarrow> None)"

definition convertMapInterface :: "dyn option \<Rightarrow> (string \<times> dyn) list option" where
  "convertMapInterface m = (case m of Some (DMap mm) \<Rightarrow> Some mm | _ \<Rightarrow> None)"

text \<open>\<open>m[key].([]interface{})\<close>, keeping the elements that are strings.\<close>

definition stringItems :: "(string \<times> dyn) list \<Rightarrow> string \<Rightarrow> string list" where
  "stringItems m k =
     (case map_of m k of
        Some (DList vs) \<Rightarrow> concat (map (\<lambda>v. case v of DStr s \<Rightarrow> [s] | _ \<Rightarrow> []) vs)
      | _ \<Rightarrow> [])"

definition parseClaim :: "Env \<Rightarrow> (string \<times> dyn) list \<Rightarrow> string \<Rightarrow> error + Claim" where
  "parseClaim env claimDict sourceID =
     (let cid = (case strField claimDict ''id'' of Some x \<Rightarrow> x | None \<Rightarrow> []);
          claimType = (case strField claimDict ''type'' of Some x \<Rightarrow> x | None \<Rightarrow> []);
          scopeData = (case map_of claimDict ''scope'' of Some (DMap m) \<Rightarrow> m | _ \<Rightarrow> []);
          scope = \<lparr>Jurisdictions = stringItems scopeData ''jurisdictions'',
                   TimeStart = parseTime env (map_of scopeData ''time_start''),
                   TimeEnd = parseTime env (map_of scopeData ''time_end''),
                   Operations = stringItems scopeData ''operations''\<rparr>;
          subject = (case strField claimDict ''subject'' of Some x \<Rightarrow> x | None \<Rightarrow> []);
          action = (case strField claimDict ''action'' of Some x \<Rightarrow> x | None \<Rightarrow> []);
          resource = (case strField claimDict ''resource'' of Some x \<Rightarrow> x | None \<Rightarrow> [])
      in if cid = []
           then Inl (newValidationError ''id'' ''claim ID is required'' None)
         else if claimType = []
           then Inl (newValidationError ''type'' ''claim type is required'' None)
         else if \<not> IsValidClaimType claimType
           then Inl (newValidationError ''type'' (''invalid claim type: '' @ claimType) None)
         else if subject = []
           then Inl (newValidationError ''subject'' ''claim subject is required'' None)
         else if action = []
           then Inl (newValidationError ''action'' ''claim action is required'' None)
         else if resource = []
           then Inl (newValidationError ''resource'' ''claim resource is required'' None)
         else Inr \<lparr>ID = cid, Type = claimType, Subject = subject, Action = action,
                   Resource = resource, Scope = scope,
                   Conditions = convertMapInterface (map_of claimDict ''conditions''),
                   SourceID = sourceID\<rparr>)"

text \<open>
  The loop of \<open>Normalize\<close> over the claim records: the parsed claims and the parse
  errors, both in input order. A record that is not a map is skipped.
\<close>

fun parseClaims :: "Env \<Rightarrow> string \<Rightarrow> dyn list \<Rightarrow> Claim list \<times> error list" where
  "parseClaims env sourceID [] = ([], [])"
| "parseClaims env sourceID (claimData # rest) =
     (let (claims, parseErrors) = parseClaims env sourceID rest
      in (case claimData of
            DMap claimDict \<Rightarrow>
              (case parseClaim env claimDict sourceID of
                 Inl err \<Rightarrow> (claims, err # parseErrors)
               | Inr claim \<Rightarrow> (claim # claims, parseErrors))
          | _ \<Rightarrow> (claims, parseErrors)))"

text \<open>
  \<open>Normalize\<close> returns the compiler's source table after the call together with
  the result. \<open>uuid\<close> and \<open>now\<close> are what \<open>generateUUID()\<close> and
  \<open>time.Now().UTC()\<close> return in this call.
\<close>

definition Normalize :: "Env \<Rightarrow> error option \<Rightarrow> string \<Rightarrow> Time \<Rightarrow> Sources \<Rightarrow> AuthoritySource \<Rightarrow> Sources \<times> (error + AuthorityArtifact)" where
  "Normalize env ctxErr uuid now sources source =
     (case ctxErr of
        Some err \<Rightarrow> (sources, Inl err)
      | None \<Rightarrow>
        if srcID source = [] then (sources, Inl ErrEmptySourceID)
        else
          let sources' = sources(srcID source \<mapsto> source);
              (claims, parseErrors) =
                (case map_of (Metadata source) ''claims'' of
                   Some (DList claimsData) \<Rightarrow> parseClaims env (srcID source) claimsData
                 | _ \<Rightarrow> ([], []))
          in if length parseErrors > 0 then
               (sources',
                Inl (CompilationError ''normalization''
                       (''failed to parse '' @ itoa (length parseErrors) @ '' claims'')
                       [] (Some (hd parseErrors))))
             else
               (sources',
                Inr \<lparr>artID = uuid, artSourceID = srcID source, Claims = claims,
                     Graph = buildGraph env claims, GeneratedAt = now\<rparr>))"

definition Validate :: "AuthorityArtifact \<Rightarrow> error option" where
  "Validate artifact = ValidateAirWithErrors artifact"

definition Compile :: "AuthorityArtifact \<Rightarrow> AuthorityArtifact" where
  "Compile artifact = artifact"

section \<open>Compiler: proof emission\<close>

text \<open>
  The value handed to \<open>json.MarshalIndent\<close> and the encoder's layout of it: two
  spaces per level, one entry per line, the keys of a map in sorted order
  (\<open>jsonMap\<close>), \<open>[]\<close> and \<open>{}\<close> for the empty list and map.
\<close>

datatype json = JStr string | JInt int | JArr "json list" | JObj "(string \<times> json) list"

definition jsonMap :: "(string \<times> json) list \<Rightarrow> json" where
  "jsonMap kvs = JObj (sort_key fst kvs)"

definition showInt :: "int \<Rightarrow> string" where
  "showInt i = (if i < 0 then ''-'' @ itoa (nat (- i)) else itoa (nat i))"

definition newline :: string where
  "newline = [CHR 0x0A]"

definition indent :: "nat \<Rightarrow> string" where
  "indent d = concat (replicate d ''  '')"

fun marshalIndent :: "Env \<Rightarrow> nat \<Rightarrow> json \<Rightarrow> string" where
  "marshalIndent env d (JStr s) = jsonString env s"
| "marshalIndent env d (JInt i) = showInt i"
| "marshalIndent env d (JArr xs) =
     (if xs = [] then ''[]''
      else ''['' @ newline @
           joinWith ('','' @ newline)
             (map (\<lambda>x. indent (d + 1) @ marshalIndent env (d + 1) x) xs) @
           newline @ indent d @ '']'')"
| "marshalIndent env d (JObj kvs) =
     (if kvs = [] then ''{}''
      else ''{'' @ newline @
           joinWith ('','' @ newline)
             (map (\<lambda>kv. indent (d + 1) @ jsonString env (fst kv) @ '': '' @
                          marshalIndent env (d + 1) (snd kv)) kvs) @
           newline @ indent d @ ''}'')"

definition claimEntry :: "Claim \<Rightarrow> json" where
  "claimEntry claim =
     jsonMap [(''action'', JStr (Action claim)),
              (''id'', JStr (ID claim)),
              (''resource'', JStr (Resource claim)),
              (''source_id'', JStr (SourceID claim)),
              (''subject'', JStr (Subject claim)),
              (''type'', JStr (Type claim))]"

definition proofData :: "Env \<Rightarrow> AuthorityArtifact \<Rightarrow> (string \<times> json) list" where
  "proofData env artifact =
     (let sortedClaims = sortSlice (sortClaims env) (\<lambda>a b. ID a < ID b) (Claims artifact);
          claimsList = map claimEntry sortedClaims
      in [(''artifact_id'', JStr (artID artifact)),
          (''claims'', JArr claimsList),
          (''claims_count'', JInt (int (length (Claims artifact)))),
          (''generated_at'', JStr (timeFormat env (GeneratedAt artifact))),
          (''graph'', jsonMap [(''edges'', JInt (int (length (Edges (Graph artifact))))),
                               (''nodes'', JInt (int (nodesLen (Nodes (Graph artifact)))))]),
          (''source_id'', JStr (artSourceID artifact))])"

definition EmitProof :: "Env \<Rightarrow> AuthorityArtifact \<Rightarrow> string" where
  "EmitProof env artifact = marshalIndent env 0 (jsonMap (proofData env artifact))"

section \<open>Compiler: the pipeline driver\<close>

definition getClaimIDs :: "Claim list \<Rightarrow> string list" where
  "getClaimIDs claims = sort (map ID claims)"

text \<open>
  A context, as the pipeline reads it: \<open>ctx k\<close> is what \<open>ctx.Err()\<close> returns at
  the \<open>k\<close>-th read. \<open>Normalize\<close> reads it first, \<open>ResolveConflicts\<close> second; a
  context can be cancelled between the two. \<open>context.Background()\<close> is never
  cancelled.
\<close>

type_synonym Context = "nat \<Rightarrow> error option"

definition Background :: Context where
  "Background = (\<lambda>k. None)"

definition Canceled :: error where
  "Canceled = ContextError ''context canceled''"

text \<open>
  The artifact of Go's result pair \<open>(AuthorityArtifact, error)\<close>: every error
  return of \<open>Normalize\<close> and \<open>ResolveConflicts\<close> returns \<open>AuthorityArtifact{}\<close>.
\<close>

definition returnedArtifact :: "error + AuthorityArtifact \<Rightarrow> AuthorityArtifact" where
  "returnedArtifact r = (case r of Inl err \<Rightarrow> zeroArtifact | Inr artifact \<Rightarrow> artifact)"

text \<open>
  \<open>ProcessWithContext\<close>. The statement \<open>artifact, err = c.ResolveConflicts(ctx, artifact)\<close>
  assigns the returned artifact to the variable before the error is inspected.
\<close>

definition ProcessWithContext :: "Env \<Rightarrow> Context \<Rightarrow> string \<Rightarrow> Time \<Rightarrow> Sources \<Rightarrow> AuthoritySource \<Rightarrow> Sources \<times> (CompilationFailure + CompilationSuccess)" where
  "ProcessWithContext env ctx uuid now sources source =
     (let (sources', normalized) = Normalize env (ctx 0) uuid now sources source
      in (case normalized of
            Inl err \<Rightarrow>
              (sources',
               Inl \<lparr>FailureStage = ''normalization'', ViolatedInvariant = Error err,
                    InvolvedClaimIDs = [], FailClosed = True\<rparr>)
          | Inr artifact \<Rightarrow>
              (case Validate artifact of
                 Some err \<Rightarrow>
                   (sources',
                    Inl \<lparr>FailureStage = ''validation'', ViolatedInvariant = Error err,
                         InvolvedClaimIDs = getClaimIDs (Claims artifact), FailClosed = True\<rparr>)
               | None \<Rightarrow>
                   (let resolved = ResolveConflicts env (ctx 1) sources' artifact;
                        artifact1 = returnedArtifact resolved
                    in (case resolved of
                          Inl err \<Rightarrow>
                            (sources',
                             Inl \<lparr>FailureStage = ''resolution'', ViolatedInvariant = Error err,
                                  InvolvedClaimIDs = getClaimIDs (Claims artifact1),
                                  FailClosed = True\<rparr>)
                        | Inr _ \<Rightarrow>
                            (let artifact2 = Compile artifact1
                             in (sources',
                                 Inr \<lparr>Artifact = artifact2,
                                      Proof = EmitProof env artifact2\<rparr>)))))))"

definition Process :: "Env \<Rightarrow> string \<Rightarrow> Time \<Rightarrow> Sources \<Rightarrow> AuthoritySource \<Rightarrow> Sources \<times> (CompilationFailure + CompilationSuccess)" where
  "Process env uuid now sources source = ProcessWithContext env Background uuid now sources source"

section \<open>Runtime interface\<close>

definition matches :: "string \<Rightarrow> string \<Rightarrow> bool" where
  "matches pattern v =
     (if pattern = ''*'' then True
      else if pattern = v then True
      else if CHR ''*'' \<in> set pattern then
        (if suffix ''/*'' pattern then
           prefix (take (length pattern - 2) pattern @ ''/'') v
         else if suffix ''*'' pattern then
           prefix (take (length pattern - 1) pattern) v
         else False)
      else False)"

definition scopeToDict :: "Env \<Rightarrow> Scope \<Rightarrow> (string \<times> dyn) list" where
  "scopeToDict env scope =
     [(''jurisdictions'', DStrs (Jurisdictions scope)),
      (''time_start'', (case TimeStart scope of None \<Rightarrow> DNil | Some t \<Rightarrow> DStr (timeFormat env t))),
      (''time_end'', (case TimeEnd scope of None \<Rightarrow> DNil | Some t \<Rightarrow> DStr (timeFormat env t))),
      (''operations'', DStrs (Operations scope))]"

text \<open>The map \<open>IsAuthorized\<close> returns always has the same four keys.\<close>

record AuthorizationResult =
  allowed :: bool
  authority_id :: string
  reason :: string
  scope :: "(string \<times> dyn) list"

definition applicableClaims :: "AuthorityArtifact \<Rightarrow> string \<Rightarrow> string \<Rightarrow> string \<Rightarrow> Claim list" where
  "applicableClaims artifact subject action resource =
     filter (\<lambda>claim. matches (Subject claim) subject \<and> matches (Action claim) action \<and>
                      matches (Resource claim) resource) (Claims artifact)"

definition IsAuthorized :: "Env \<Rightarrow> AuthorityArtifact \<Rightarrow> string \<Rightarrow> string \<Rightarrow> string \<Rightarrow> AuthorizationResult" where
  "IsAuthorized env artifact subject action resource =
     (let applicable = applicableClaims artifact subject action resource
      in (case find (\<lambda>claim. Type claim = Prohibition) applicable of
            Some claim \<Rightarrow>
              \<lparr>allowed = False, authority_id = ID claim, reason = ''Prohibited by authority'',
               scope = scopeToDict env (Scope claim)\<rparr>
          | None \<Rightarrow>
              (case find (\<lambda>claim. Type claim = Permission) applicable of
                 Some claim \<Rightarrow>
                   \<lparr>allowed = True, authority_id = ID claim, reason = ''Permitted by authority'',
                    scope = scopeToDict env (Scope claim)\<rparr>
               | None \<Rightarrow>
                   \<lparr>allowed = False, authority_id = artID artifact,
                    reason = ''No applicable authority found - failing closed'',
                    scope = []\<rparr>)))"

section \<open>Example inputs\<close>

definition exClaim :: "string \<Rightarrow> ClaimType \<Rightarrow> string \<Rightarrow> Claim" where
  "exClaim cid ty sid =
     \<lparr>ID = cid, Type = ty, Subject = ''user'', Action = ''read'', Resource = ''/data'',
      Scope = zeroScope, Conditions = None, SourceID = sid\<rparr>"

text \<open>
  An environment for the examples. Its long-slice sort is the insertion sort; no
  example has a slice of more than 12 elements.
\<close>

definition stableSort :: "'a libsort" where
  "stableSort = LibSort insertionSort"

definition exEnv :: Env where
  "exEnv = \<lparr>timeParse = (\<lambda>s. None), timeFormat = (\<lambda>t. ''2024-01-01T00:00:00Z''),
            jsonString = (\<lambda>s. [CHR 0x22] @ s @ [CHR 0x22]),
            sortEdges = stableSort, sortClaims = stableSort\<rparr>"

definition exArtifact :: "Claim list \<Rightarrow> AuthorityArtifact" where
  "exArtifact claims =
     \<lparr>artID = ''artifact'', artSourceID = ''src'', Claims = claims,
      Graph = buildGraph exEnv claims, GeneratedAt = 0\<rparr>"

definition exSource :: "string \<Rightarrow> string \<Rightarrow> dyn list \<Rightarrow> AuthoritySource" where
  "exSource sid ver claimsData =
     \<lparr>srcID = sid, srcType = Organizational, Name = ''policy'', Description = [],
      Version = ver, Metadata = [(''claims'', DList claimsData)]\<rparr>"

definition exRecord :: "string \<Rightarrow> string \<Rightarrow> dyn" where
  "exRecord cid ty =
     DMap [(''id'', DStr cid), (''type'', DStr ty), (''subject'', DStr ''user''),
           (''action'', DStr ''read''), (''resource'', DStr ''/data'')]"

section \<open>Notions used in the proofs\<close>

text \<open>
  Names for parts of the resolver: the claims that take part in conflict detection,
  one step of the grouping loop, the winner of a group, the claims that no group
  drops, the claims left after revocations and supersessions, the claims the resolver
  returns, and the node IDs of the graph built from a list of claims.
\<close>

definition participates :: "Claim \<Rightarrow> bool" where
  "participates c = (\<not> (Type c = Delegation \<or> Type c = Obligation))"

definition groupStep :: "(string \<times> Claim list) list \<Rightarrow> Claim \<Rightarrow> (string \<times> Claim list) list" where
 "groupStep grouped claim = (if Type claim = Delegation \<or> Type claim = Obligation then grouped
              else mapSet (conflictKey claim)
                     (mapGet [] grouped (conflictKey claim) @ [claim]) grouped)"

definition winnerOf :: "Env \<Rightarrow> Sources \<Rightarrow> AuthorityGraph \<Rightarrow> Claim list \<Rightarrow> Claim" where
  "winnerOf env sources graph g =
     hd (sortSlice (sortClaims env) (precedenceLess sources graph) g)"

definition survives :: "Env \<Rightarrow> Sources \<Rightarrow> AuthorityGraph \<Rightarrow> Claim list list \<Rightarrow> Claim \<Rightarrow> bool" where
  "survives env sources graph gs c =
     list_all (\<lambda>g. ID c \<notin> set (losingClaimIDs g (winnerOf env sources graph g))) gs"

definition afterEdges :: "AuthorityArtifact \<Rightarrow> Claim list" where
  "afterEdges a = Claims (applySupersessions (applyRevocations a))"

definition resolvedClaims :: "Env \<Rightarrow> Sources \<Rightarrow> AuthorityArtifact \<Rightarrow> Claim list" where
  "resolvedClaims env sources a =
     filter (survives env sources (Graph a) (findConflicts (afterEdges a))) (afterEdges a)"

definition nodeIDs :: "Claim list \<Rightarrow> string list" where
  "nodeIDs cl = mapKeys (foldl (\<lambda>m claim. mapSet (ID claim) claim m) [] cl)"

text \<open>
  The part of the precedence key that the comparison reads: authority order,
  delegation depth and negated scope specificity, ordered lexicographically.
\<close>

definition keyTriple :: "Sources \<Rightarrow> AuthorityGraph \<Rightarrow> Claim \<Rightarrow> int \<times> int \<times> int" where
  "keyTriple sources graph claim =
     (mapGet 0 AuthorityTypeOrder (srcType (sourceOf sources (SourceID claim))),
      getDelegationDepth claim graph,
      - getScopeSpecificity (Scope claim))"

text \<open>
  The three parts of a proof text that enclose the encoded artifact ID and the
  encoded generation time. They are computed from the claims, the graph and the
  source ID alone.
\<close>

definition proofPre :: "Env \<Rightarrow> string" where
  "proofPre env = ''{'' @ newline @ indent 1 @ jsonString env ''artifact_id'' @ '': ''"

definition proofMid :: "Env \<Rightarrow> Claim list \<Rightarrow> string" where
  "proofMid env claims =
     '','' @ newline @ indent 1 @ jsonString env ''claims'' @ '': '' @
       marshalIndent env 1
         (JArr (map claimEntry (sortSlice (sortClaims env) (\<lambda>a b. ID a < ID b) claims))) @
     '','' @ newline @ indent 1 @ jsonString env ''claims_count'' @ '': '' @
       showInt (int (length claims)) @
     '','' @ newline @ indent 1 @ jsonString env ''generated_at'' @ '': ''"

definition proofPost :: "Env \<Rightarrow> AuthorityGraph \<Rightarrow> string \<Rightarrow> string" where
  "proofPost env graph sourceID =
     '','' @ newline @ indent 1 @ jsonString env ''graph'' @ '': '' @
       marshalIndent env 1
         (jsonMap [(''edges'', JInt (int (length (Edges graph)))),
                   (''nodes'', JInt (int (nodesLen (Nodes graph))))]) @
     '','' @ newline @ indent 1 @ jsonString env ''source_id'' @ '': '' @
       jsonString env sourceID @
     newline @ indent 0 @ ''}''"

section \<open>Auxiliary lemmas\<close>

subsection \<open>Sorting\<close>

lemma runSort_stableSort: "runSort stableSort = insertionSort"
  unfolding stableSort_def
  by (rule LibSort_inverse) (simp add: mset_insertionSort ordered_insertionSort)

lemma mset_sortSlice: "mset (sortSlice srt lt xs) = mset xs"
  using runSort[of srt] by (simp add: sortSlice_def mset_insertionSort)

lemma set_sortSlice: "set (sortSlice srt lt xs) = set xs"
  by (rule mset_eq_setD) (rule mset_sortSlice)

lemma length_sortSlice: "length (sortSlice srt lt xs) = length xs"
  by (rule mset_eq_length) (rule mset_sortSlice)

lemma hd_sortSlice_mem: "xs \<noteq> [] \<Longrightarrow> hd (sortSlice srt lt xs) \<in> set xs"
  by (metis hd_in_set length_0_conv length_sortSlice set_sortSlice)

lemma ordered_sortSlice:
  "strictWeakOrder lt \<Longrightarrow> sorted_wrt (\<lambda>a b. \<not> lt b a) (sortSlice srt lt xs)"
  using runSort[of srt] by (simp add: sortSlice_def ordered_insertionSort)

lemma hd_ordered_min:
  assumes "strictWeakOrder lt" and "sorted_wrt (\<lambda>a b. \<not> lt b a) zs" and "m \<in> set zs"
  shows "\<not> lt m (hd zs)"
proof (cases zs)
  case Nil
  with assms(3) show ?thesis by simp
next
  case (Cons z zs')
  from assms(1) have "\<not> lt z z" unfolding strictWeakOrder_def by blast
  with assms(2,3) Cons show ?thesis by auto
qed

subsection \<open>The precedence order\<close>

lemma precedenceLess_keyTriple:
  "precedenceLess sources graph a b \<longleftrightarrow> keyTriple sources graph a < keyTriple sources graph b"
  by (auto simp: precedenceLess_def precedenceKey_def Let_def keyTriple_def less_prod_def)

lemma strictWeakOrder_key:
  assumes "\<And>a b. lt a b \<longleftrightarrow> k a < (k b :: 'k :: linorder)"
  shows "strictWeakOrder lt"
  unfolding strictWeakOrder_def assms by auto

lemma strictWeakOrder_precedenceLess: "strictWeakOrder (precedenceLess sources graph)"
  by (rule strictWeakOrder_key[where k = "keyTriple sources graph"])
     (rule precedenceLess_keyTriple)

subsection \<open>Go maps as association lists\<close>

lemma map_of_filter_neq:
  "map_of (filter (\<lambda>kv. fst kv \<noteq> k) m) k' = (if k' = k then None else map_of m k')"
  by (induction m) auto

lemma mapGet_mapSet: "mapGet d (mapSet k v m) k' = (if k' = k then v else mapGet d m k')"
  by (simp add: mapGet_def mapSet_def map_of_filter_neq)

lemma set_mapKeys_mapSet: "set (mapKeys (mapSet k v m)) = insert k (set (mapKeys m))"
  by (auto simp: mapKeys_def mapSet_def)

lemma mapGet_Nil: "mapGet d [] k = d"
  by (simp add: mapGet_def)

lemma mapKeys_Nil: "mapKeys [] = []"
  by (simp add: mapKeys_def)

subsection \<open>Grouping\<close>

lemma groupClaims_alt: "groupClaims claims = foldl groupStep [] claims"
  unfolding groupClaims_def groupStep_def ..

lemma mapGet_foldl_groupStep:
  "mapGet [] (foldl groupStep acc cl) k =
     mapGet [] acc k @ filter (\<lambda>c. participates c \<and> conflictKey c = k) cl"
  by (induction cl arbitrary: acc) (auto simp: groupStep_def participates_def mapGet_mapSet)

lemma mapGet_groupClaims:
  "mapGet [] (groupClaims cl) k = filter (\<lambda>c. participates c \<and> conflictKey c = k) cl"
  by (simp add: groupClaims_alt mapGet_foldl_groupStep mapGet_Nil)

lemma findConflicts_mem:
  "g \<in> set (findConflicts cl) \<Longrightarrow>
     length g > 1 \<and> (\<exists>k. g = filter (\<lambda>c. participates c \<and> conflictKey c = k) cl)"
  by (auto simp: findConflicts_def Let_def mapGet_groupClaims split: if_splits)

lemma set_mapKeys_foldl_groupStep:
  "set (mapKeys (foldl groupStep acc cl)) =
     set (mapKeys acc) \<union> conflictKey ` {c \<in> set cl. participates c}"
  by (induction cl arbitrary: acc) (auto simp: groupStep_def participates_def set_mapKeys_mapSet)

lemma findConflicts_complete:
  assumes "length (filter (\<lambda>c. participates c \<and> conflictKey c = k) cl) > 1"
  shows "filter (\<lambda>c. participates c \<and> conflictKey c = k) cl \<in> set (findConflicts cl)"
proof -
  let ?g = "filter (\<lambda>c. participates c \<and> conflictKey c = k) cl"
  from assms have "?g \<noteq> []" by auto
  then obtain c where "c \<in> set ?g" by (cases ?g) auto
  then have "k \<in> set (mapKeys (groupClaims cl))"
    by (auto simp: groupClaims_alt set_mapKeys_foldl_groupStep mapKeys_Nil)
  with assms show ?thesis
    by (auto simp: findConflicts_def Let_def mapGet_groupClaims)
qed


subsection \<open>The resolver loop\<close>

lemma applyPrecedence_nonempty:
  "g \<noteq> [] \<Longrightarrow> applyPrecedence env sources g artifact = (Some (winnerOf env sources (Graph artifact) g), None)"
  by (simp add: applyPrecedence_def winnerOf_def)

lemma winnerOf_mem: "g \<noteq> [] \<Longrightarrow> winnerOf env sources graph g \<in> set g"
  by (simp add: winnerOf_def hd_sortSlice_mem)

lemma resolveGroups_Inr:
  "list_all (\<lambda>g. g \<noteq> []) gs \<Longrightarrow>
   resolveGroups env sources gs a =
     Inr (a\<lparr>Claims := filter (survives env sources (Graph a) gs) (Claims a)\<rparr>)"
proof (induction gs arbitrary: a)
  case Nil
  then show ?case by (simp add: survives_def)
next
  case (Cons g gs)
  then have g: "g \<noteq> []" and gs: "list_all (\<lambda>g. g \<noteq> []) gs" by auto
  show ?case
    by (simp add: applyPrecedence_nonempty[OF g] Cons.IH[OF gs] survives_def conj_commute)
qed

lemma findConflicts_nonempty: "list_all (\<lambda>g. g \<noteq> []) (findConflicts cl)"
  by (auto simp: list_all_iff dest: findConflicts_mem)

lemma Claims_applySupersessions_applyRevocations:
  "Claims (applySupersessions (applyRevocations a)) =
     filter (\<lambda>c. ID c \<notin> set (edgeTargets Supersedes (Edges (Graph a))))
       (filter (\<lambda>c. ID c \<notin> set (edgeTargets Revokes (Edges (Graph a)))) (Claims a))"
  and Graph_applySupersessions_applyRevocations:
  "Graph (applySupersessions (applyRevocations a)) = Graph a"
  by (simp_all add: applySupersessions_def applyRevocations_def Let_def)

lemma ResolveConflicts_None:
  "ResolveConflicts env None sources a =
     Inr (a\<lparr>Claims := resolvedClaims env sources a, Graph := buildGraph env (resolvedClaims env sources a)\<rparr>)"
  by (simp add: ResolveConflicts_def Let_def resolveGroups_Inr[OF findConflicts_nonempty]
      resolvedClaims_def afterEdges_def Graph_applySupersessions_applyRevocations
      applySupersessions_def applyRevocations_def)

lemma ResolveConflicts_Some: "ResolveConflicts env (Some e) sources a = Inl e"
  by (simp add: ResolveConflicts_def)

lemma survivor_in_group:
  assumes g: "g \<in> set (findConflicts cl)" and s: "survives env sources graph (findConflicts cl) c"
    and c: "c \<in> set g"
  shows "ID c = ID (winnerOf env sources graph g)"
proof -
  from s g have "ID c \<notin> set (losingClaimIDs g (winnerOf env sources graph g))"
    by (auto simp: survives_def list_all_iff)
  with c show ?thesis by (auto simp: losingClaimIDs_def)
qed

lemma resolved_same_key_same_ID:
  assumes c1: "c1 \<in> set (resolvedClaims env sources a)" and c2: "c2 \<in> set (resolvedClaims env sources a)"
    and p1: "participates c1" and p2: "participates c2"
    and k: "conflictKey c1 = conflictKey c2"
  shows "ID c1 = ID c2"
proof (rule ccontr)
  assume neq: "ID c1 \<noteq> ID c2"
  let ?cl = "afterEdges a"
  let ?g = "filter (\<lambda>c. participates c \<and> conflictKey c = conflictKey c1) ?cl"
  from c1 c2 have m1: "c1 \<in> set ?cl" and m2: "c2 \<in> set ?cl"
    and s1: "survives env sources (Graph a) (findConflicts ?cl) c1"
    and s2: "survives env sources (Graph a) (findConflicts ?cl) c2"
    by (auto simp: resolvedClaims_def)
  from m1 m2 p1 p2 k have g1: "c1 \<in> set ?g" and g2: "c2 \<in> set ?g" by auto
  from neq have "c1 \<noteq> c2" by auto
  with g1 g2 have "card (set ?g) \<ge> 2"
    by (metis (no_types, lifting) List.finite_set card_le_Suc0_iff_eq not_less_eq_eq numeral_2_eq_2)
  then have "length ?g > 1" using card_length[of ?g] by linarith
  then have "?g \<in> set (findConflicts ?cl)" by (rule findConflicts_complete)
  from survivor_in_group[OF this s1 g1] survivor_in_group[OF this s2 g2] neq
  show False by simp
qed


lemma participates_Permission: "Type c = Permission \<Longrightarrow> participates c"
  and participates_Prohibition: "Type c = Prohibition \<Longrightarrow> participates c"
  by (simp_all add: participates_def type_consts)

subsection \<open>Rebuilding the graph\<close>

lemma set_mapKeys_foldl_nodes:
  "set (mapKeys (foldl (\<lambda>m claim. mapSet (ID claim) claim m) acc cl)) =
     set (mapKeys acc) \<union> ID ` set cl"
  by (induction cl arbitrary: acc) (auto simp: set_mapKeys_mapSet)

lemma set_nodeIDs: "set (nodeIDs cl) = ID ` set cl"
  by (simp add: nodeIDs_def set_mapKeys_foldl_nodes mapKeys_Nil)

lemma set_Edges_buildGraph:
  "set (Edges (buildGraph env cl)) = (\<Union>c \<in> set cl. set (claimEdges (nodeIDs cl) c))"
  by (simp add: buildGraph_def Let_def set_sortSlice nodeIDs_def)

lemma condEdge_target: "e \<in> set (condEdge ids c conds key ty) \<Longrightarrow> ToID e \<in> set ids"
  by (auto simp: condEdge_def split: option.splits if_splits)

lemma condEdge_mono:
  "e \<in> set (condEdge ids c conds key ty) \<Longrightarrow> set ids \<subseteq> set ids' \<Longrightarrow>
     e \<in> set (condEdge ids' c conds key ty)"
  by (auto simp: condEdge_def split: option.splits if_splits)

lemma claimEdges_target: "e \<in> set (claimEdges ids c) \<Longrightarrow> ToID e \<in> set ids"
  by (cases "Conditions c") (auto simp: claimEdges_def dest: condEdge_target)

lemma claimEdges_mono:
  "e \<in> set (claimEdges ids c) \<Longrightarrow> set ids \<subseteq> set ids' \<Longrightarrow> e \<in> set (claimEdges ids' c)"
  by (cases "Conditions c") (auto simp: claimEdges_def dest: condEdge_mono)

lemma edges_sublist:
  assumes "set cl' \<subseteq> set cl" and "e \<in> set (Edges (buildGraph env cl'))"
  shows "e \<in> set (Edges (buildGraph env cl))" and "ToID e \<in> ID ` set cl'"
proof -
  from assms(2) obtain c where c: "c \<in> set cl'" "e \<in> set (claimEdges (nodeIDs cl') c)"
    by (auto simp: set_Edges_buildGraph)
  from assms(1) have "set (nodeIDs cl') \<subseteq> set (nodeIDs cl)" by (auto simp: set_nodeIDs)
  with c(2) have "e \<in> set (claimEdges (nodeIDs cl) c)" by (rule claimEdges_mono)
  with c(1) assms(1) show "e \<in> set (Edges (buildGraph env cl))"
    by (auto simp: set_Edges_buildGraph)
  from claimEdges_target[OF c(2)] show "ToID e \<in> ID ` set cl'" by (simp add: set_nodeIDs)
qed

lemma set_resolvedClaims: "set (resolvedClaims env sources a) \<subseteq> set (afterEdges a)"
  by (auto simp: resolvedClaims_def)

lemma afterEdges_alt:
  "afterEdges a =
     filter (\<lambda>c. ID c \<notin> set (edgeTargets Supersedes (Edges (Graph a))))
       (filter (\<lambda>c. ID c \<notin> set (edgeTargets Revokes (Edges (Graph a)))) (Claims a))"
  by (simp add: afterEdges_def Claims_applySupersessions_applyRevocations)

lemma no_targets_after:
  assumes g: "Graph a = buildGraph env (Claims a)" and sub: "set cl' \<subseteq> set (afterEdges a)"
    and ty: "ty = Revokes \<or> ty = Supersedes"
  shows "edgeTargets ty (Edges (buildGraph env cl')) = []"
proof (rule ccontr)
  assume "edgeTargets ty (Edges (buildGraph env cl')) \<noteq> []"
  then obtain t where "t \<in> set (edgeTargets ty (Edges (buildGraph env cl')))"
    by (cases "edgeTargets ty (Edges (buildGraph env cl'))") auto
  then obtain e where e: "e \<in> set (Edges (buildGraph env cl'))" "EdgeType e = ty" "ToID e = t"
    by (auto simp: edgeTargets_def)
  have sub': "set cl' \<subseteq> set (Claims a)" using sub by (auto simp: afterEdges_alt)
  from edges_sublist[OF sub' e(1)] g e(2,3)
  have t: "t \<in> set (edgeTargets ty (Edges (Graph a)))" and "t \<in> ID ` set cl'"
    by (auto simp: edgeTargets_def)
  then obtain c where "c \<in> set cl'" "ID c = t" by auto
  with sub have "c \<in> set (afterEdges a)" "ID c = t" by auto
  with t ty show False by (auto simp: afterEdges_alt)
qed

lemma filter_notin_Nil: "filter (\<lambda>c. f c \<notin> set []) xs = xs"
  by simp

subsection \<open>The proof document\<close>

lemma proofData_keys:
  "map fst (proofData env artifact) =
     [''artifact_id'', ''claims'', ''claims_count'', ''generated_at'', ''graph'', ''source_id'']"
  by (simp add: proofData_def Let_def)

lemma proofData_keys_sorted:
  "sorted [''artifact_id'', ''claims'', ''claims_count'', ''generated_at'', ''graph'', ''source_id'']"
  by code_simp

lemma EmitProof_frame:
  "EmitProof env artifact =
     proofPre env @ jsonString env (artID artifact) @
     proofMid env (Claims artifact) @ jsonString env (timeFormat env (GeneratedAt artifact)) @
     proofPost env (Graph artifact) (artSourceID artifact)"
proof -
  have "sort_key fst (proofData env artifact) = proofData env artifact"
    by (rule sort_key_id_if_sorted) (simp only: proofData_keys proofData_keys_sorted)
  then have "EmitProof env artifact = marshalIndent env 0 (JObj (proofData env artifact))"
    by (simp add: EmitProof_def jsonMap_def)
  also have "\<dots> = proofPre env @ jsonString env (artID artifact) @
     proofMid env (Claims artifact) @ jsonString env (timeFormat env (GeneratedAt artifact)) @
     proofPost env (Graph artifact) (artSourceID artifact)"
    by (simp add: proofData_def Let_def proofPre_def proofMid_def proofPost_def)
  finally show ?thesis .
qed

subsection \<open>Searching and parsing\<close>

lemma find_None_iff': "find P xs = None \<longleftrightarrow> \<not> (\<exists>x\<in>set xs. P x)"
  by (induction xs) auto

lemma find_Some_mem: "find P xs = Some x \<Longrightarrow> x \<in> set xs \<and> P x"
  by (induction xs) (auto split: if_splits)

lemma parseClaims_error:
  "DMap d \<in> set ds \<Longrightarrow> parseClaim env d sid = Inl e \<Longrightarrow> snd (parseClaims env sid ds) \<noteq> []"
  by (induction ds) (auto split: prod.splits dyn.splits sum.splits)

section \<open>Properties of the validator\<close>

text \<open>
  C5. The scope containment check of the validator decides the definition of the
  specification: the jurisdictions and the operations of the inner scope are subsets
  of the outer ones, the inner start is not before the outer start when both are
  present, and the inner end is not after the outer end when both are present. A
  bound that is absent on either side constrains nothing.
\<close>

theorem isScopeContained_iff:
  "isScopeContained inner outer \<longleftrightarrow>
     set (Jurisdictions inner) \<subseteq> set (Jurisdictions outer) \<and>
     set (Operations inner) \<subseteq> set (Operations outer) \<and>
     (\<forall>ostart istart. TimeStart outer = Some ostart \<and> TimeStart inner = Some istart
        \<longrightarrow> istart \<ge> ostart) \<and>
     (\<forall>oend iend. TimeEnd outer = Some oend \<and> TimeEnd inner = Some iend
        \<longrightarrow> iend \<le> oend)"
  by (auto simp: isScopeContained_def list_all_iff split: option.splits)

theorem isScopeContained_iff_witness:
  "isScopeContained
     \<lparr>Jurisdictions = [''US''], TimeStart = Some 5, TimeEnd = None, Operations = [''read'']\<rparr>
     \<lparr>Jurisdictions = [''US'', ''EU''], TimeStart = Some 3, TimeEnd = Some 9,
        Operations = [''read'']\<rparr>
   \<and> \<not> isScopeContained
     \<lparr>Jurisdictions = [''US''], TimeStart = Some 2, TimeEnd = None, Operations = [''read'']\<rparr>
     \<lparr>Jurisdictions = [''US'', ''EU''], TimeStart = Some 3, TimeEnd = Some 9,
        Operations = [''read'']\<rparr>"
  by (simp add: isScopeContained_iff)

text \<open>
  C7. Validation rejects an artifact whose graph has no nodes table (a nil map) with
  the NilGraph error, whatever else the artifact holds; an artifact with no claims
  and an initialized, empty nodes table validates (the validator returns no error).
\<close>

theorem ValidateAirWithErrors_nil_vs_empty:
  "(Nodes (Graph artifact) = None \<longrightarrow> ValidateAirWithErrors artifact = Some ErrNilGraph) \<and>
   (Claims artifact = [] \<and> Nodes (Graph artifact) = Some [] \<longrightarrow>
      ValidateAirWithErrors artifact = None) \<and>
   ErrNilGraph = Sentinel ''graph nodes map is nil''"
  by (simp add: ValidateAirWithErrors_def nodesLen_def nodesKeys_def mapKeys_def ErrNilGraph_def)

theorem ValidateAirWithErrors_nil_vs_empty_witness:
  "ValidateAirWithErrors
     \<lparr>artID = ''nil_graph'', artSourceID = ''source'', Claims = [],
      Graph = \<lparr>Nodes = None, Edges = []\<rparr>, GeneratedAt = 0\<rparr> = Some ErrNilGraph
   \<and> ValidateAirWithErrors
     \<lparr>artID = ''empty'', artSourceID = ''source'', Claims = [],
      Graph = \<lparr>Nodes = Some [], Edges = []\<rparr>, GeneratedAt = 0\<rparr> = None"
  using ValidateAirWithErrors_nil_vs_empty
    [of "\<lparr>artID = ''nil_graph'', artSourceID = ''source'', Claims = [],
      Graph = \<lparr>Nodes = None, Edges = []\<rparr>, GeneratedAt = 0\<rparr>"]
    ValidateAirWithErrors_nil_vs_empty
    [of "\<lparr>artID = ''empty'', artSourceID = ''source'', Claims = [],
      Graph = \<lparr>Nodes = Some [], Edges = []\<rparr>, GeneratedAt = 0\<rparr>"]
  by simp

section \<open>Properties of the conflict resolver\<close>

text \<open>
  C10. \<open>ResolveConflicts\<close> never returns the unresolvable-conflict failure: every
  group that \<open>findConflicts\<close> hands to precedence resolution is non-empty,
  \<open>applyPrecedence\<close> returns a winner (a member of the group, with a nil error) for
  every non-empty group, and so the only error \<open>ResolveConflicts\<close> returns is the
  error of a cancelled context; with a context that is not cancelled it returns an
  artifact.
\<close>

theorem ResolveConflicts_only_cancellation:
  "(\<forall>g \<in> set (findConflicts claims). g \<noteq> []) \<and>
   (g \<noteq> [] \<longrightarrow> (\<exists>w. applyPrecedence env sources g artifact = (Some w, None) \<and> w \<in> set g)) \<and>
   (\<forall>err. ResolveConflicts env ctxErr sources artifact = Inl err \<longrightarrow> ctxErr = Some err) \<and>
   (\<exists>artifact'. ResolveConflicts env None sources artifact = Inr artifact')"
proof (intro conjI allI impI)
  show "\<forall>g \<in> set (findConflicts claims). g \<noteq> []"
    using findConflicts_nonempty[of claims] by (simp add: list_all_iff)
next
  assume "g \<noteq> []"
  then show "\<exists>w. applyPrecedence env sources g artifact = (Some w, None) \<and> w \<in> set g"
    by (auto simp: applyPrecedence_nonempty winnerOf_mem)
next
  fix err assume "ResolveConflicts env ctxErr sources artifact = Inl err"
  then show "ctxErr = Some err"
    by (cases ctxErr) (simp_all add: ResolveConflicts_None ResolveConflicts_Some)
next
  show "\<exists>artifact'. ResolveConflicts env None sources artifact = Inr artifact'"
    by (simp add: ResolveConflicts_None)
qed

theorem ResolveConflicts_only_cancellation_witness:
  "findConflicts [exClaim ''p'' Permission ''src'', exClaim ''x'' Prohibition ''src''] =
     [[exClaim ''p'' Permission ''src'', exClaim ''x'' Prohibition ''src'']]
   \<and> (\<exists>w. applyPrecedence exEnv Map.empty [exClaim ''p'' Permission ''src''] (exArtifact []) =
             (Some w, None))
   \<and> ResolveConflicts exEnv (Some Canceled) Map.empty (exArtifact []) = Inl Canceled
   \<and> (\<exists>artifact'. ResolveConflicts exEnv None Map.empty (exArtifact []) = Inr artifact')"
proof -
  have "findConflicts [exClaim ''p'' Permission ''src'', exClaim ''x'' Prohibition ''src''] =
     [[exClaim ''p'' Permission ''src'', exClaim ''x'' Prohibition ''src'']]"
    by code_simp
  moreover have "ResolveConflicts exEnv (Some Canceled) Map.empty (exArtifact []) = Inl Canceled"
    by (simp add: ResolveConflicts_def)
  ultimately show ?thesis
    using ResolveConflicts_only_cancellation
      [where claims = "[exClaim ''p'' Permission ''src'', exClaim ''x'' Prohibition ''src'']"
         and g = "[exClaim ''p'' Permission ''src'']" and sources = Map.empty
         and artifact = "exArtifact []" and ctxErr = None]
    by auto
qed

text \<open>
  What the resolver achieves for claims with different IDs: in an artifact it returns,
  a surviving Permission claim and a Prohibition claim with the same subject, action
  and resource and a different ID are never both present.
\<close>

theorem ResolveConflicts_no_opposing_pair:
  assumes "ResolveConflicts env ctxErr sources artifact = Inr artifact'"
    and "c1 \<in> set (Claims artifact')"
    and "Type c1 = Permission" and "Type c2 = Prohibition"
    and "Subject c1 = Subject c2" and "Action c1 = Action c2" and "Resource c1 = Resource c2"
    and "ID c1 \<noteq> ID c2"
  shows "c2 \<notin> set (Claims artifact')"
proof
  assume c2: "c2 \<in> set (Claims artifact')"
  from assms(1) have ctx: "ctxErr = None"
    by (cases ctxErr) (simp_all add: ResolveConflicts_Some)
  with assms(1) have "Claims artifact' = resolvedClaims env sources artifact"
    by (auto simp: ResolveConflicts_None)
  with assms(2) c2 have "c1 \<in> set (resolvedClaims env sources artifact)"
    "c2 \<in> set (resolvedClaims env sources artifact)" by simp_all
  moreover have "conflictKey c1 = conflictKey c2"
    using assms(5-7) by (simp add: conflictKey_def)
  ultimately have "ID c1 = ID c2"
    using assms(3,4) by (intro resolved_same_key_same_ID)
      (auto simp: participates_Permission participates_Prohibition)
  with assms(8) show False by simp
qed

theorem ResolveConflicts_no_opposing_pair_witness:
  "ResolveConflicts exEnv None Map.empty
     (exArtifact [exClaim ''p'' Permission ''src'', exClaim ''x'' Prohibition ''src'']) =
     Inr (exArtifact [exClaim ''p'' Permission ''src''])
   \<and> exClaim ''p'' Permission ''src'' \<in> set (Claims (exArtifact [exClaim ''p'' Permission ''src'']))
   \<and> exClaim ''x'' Prohibition ''src'' \<notin> set (Claims (exArtifact [exClaim ''p'' Permission ''src'']))"
proof -
  have h: "ResolveConflicts exEnv None Map.empty
     (exArtifact [exClaim ''p'' Permission ''src'', exClaim ''x'' Prohibition ''src'']) =
     Inr (exArtifact [exClaim ''p'' Permission ''src''])"
    by code_simp
  have m: "exClaim ''p'' Permission ''src'' \<in> set (Claims (exArtifact [exClaim ''p'' Permission ''src'']))"
    by (simp add: exArtifact_def)
  have "exClaim ''x'' Prohibition ''src'' \<notin> set (Claims (exArtifact [exClaim ''p'' Permission ''src'']))"
    by (rule ResolveConflicts_no_opposing_pair[OF h m]) (simp_all add: exClaim_def)
  with h m show ?thesis by simp
qed

text \<open>
  C4, evaluated at an input on which the code departs from it. The source has two
  claim records with the same ID \<open>x\<close>, a Permission and a Prohibition on the same
  subject, action and resource. The artifact that \<open>Normalize\<close> makes of them is
  valid. The resolver puts both claims in one conflict group, picks a winner, and
  drops the members whose ID differs from the winner's: none. It returns both claims
  without an error, and so does the whole pipeline.
\<close>

theorem ResolveConflicts_duplicate_id_pair:
  "snd (Normalize exEnv None ''artifact'' 0 Map.empty
          (exSource ''src'' ''1.0'' [exRecord ''x'' ''permission'', exRecord ''x'' ''prohibition''])) =
     Inr (exArtifact [exClaim ''x'' Permission ''src'', exClaim ''x'' Prohibition ''src''])
   \<and> Validate (exArtifact [exClaim ''x'' Permission ''src'', exClaim ''x'' Prohibition ''src'']) = None
   \<and> findConflicts [exClaim ''x'' Permission ''src'', exClaim ''x'' Prohibition ''src''] =
       [[exClaim ''x'' Permission ''src'', exClaim ''x'' Prohibition ''src'']]
   \<and> map_sum id Claims (ResolveConflicts exEnv None Map.empty
       (exArtifact [exClaim ''x'' Permission ''src'', exClaim ''x'' Prohibition ''src''])) =
     Inr [exClaim ''x'' Permission ''src'', exClaim ''x'' Prohibition ''src'']
   \<and> map_sum id (Claims \<circ> Artifact)
       (snd (Process exEnv ''artifact'' 0 Map.empty
          (exSource ''src'' ''1.0'' [exRecord ''x'' ''permission'', exRecord ''x'' ''prohibition'']))) =
     Inr [exClaim ''x'' Permission ''src'', exClaim ''x'' Prohibition ''src'']
   \<and> Subject (exClaim ''x'' Permission ''src'') = Subject (exClaim ''x'' Prohibition ''src'')
   \<and> Action (exClaim ''x'' Permission ''src'') = Action (exClaim ''x'' Prohibition ''src'')
   \<and> Resource (exClaim ''x'' Permission ''src'') = Resource (exClaim ''x'' Prohibition ''src'')
   \<and> Type (exClaim ''x'' Permission ''src'') = Permission
   \<and> Type (exClaim ''x'' Prohibition ''src'') = Prohibition"
proof (intro conjI)
  show "snd (Normalize exEnv None ''artifact'' 0 Map.empty
          (exSource ''src'' ''1.0'' [exRecord ''x'' ''permission'', exRecord ''x'' ''prohibition''])) =
     Inr (exArtifact [exClaim ''x'' Permission ''src'', exClaim ''x'' Prohibition ''src''])"
    by code_simp
  show "Validate (exArtifact [exClaim ''x'' Permission ''src'', exClaim ''x'' Prohibition ''src'']) = None"
    by code_simp
  show "findConflicts [exClaim ''x'' Permission ''src'', exClaim ''x'' Prohibition ''src''] =
       [[exClaim ''x'' Permission ''src'', exClaim ''x'' Prohibition ''src'']]"
    by code_simp
  show "map_sum id Claims (ResolveConflicts exEnv None Map.empty
       (exArtifact [exClaim ''x'' Permission ''src'', exClaim ''x'' Prohibition ''src''])) =
     Inr [exClaim ''x'' Permission ''src'', exClaim ''x'' Prohibition ''src'']"
    by code_simp
  show "map_sum id (Claims \<circ> Artifact)
       (snd (Process exEnv ''artifact'' 0 Map.empty
          (exSource ''src'' ''1.0'' [exRecord ''x'' ''permission'', exRecord ''x'' ''prohibition'']))) =
     Inr [exClaim ''x'' Permission ''src'', exClaim ''x'' Prohibition ''src'']"
    by code_simp
qed (simp_all add: exClaim_def)

text \<open>
  C8, as the code has it. The resolver reads revocations and supersessions from the
  edges of the artifact's graph and afterwards rebuilds the graph from the surviving
  claims. For an artifact whose graph is the one \<open>buildGraph\<close> makes of its claims
  (as \<open>Normalize\<close> produces it) the resolver is idempotent: if it returns \<open>artifact'\<close>,
  then run again on \<open>artifact'\<close> (with a context that is not cancelled) it returns
  \<open>artifact'\<close> itself, so in particular the same claims.
\<close>

theorem ResolveConflicts_idempotent:
  assumes g: "Graph artifact = buildGraph env (Claims artifact)"
    and r: "ResolveConflicts env None sources artifact = Inr artifact'"
  shows "ResolveConflicts env None sources artifact' = Inr artifact'"
proof -
  let ?cl = "resolvedClaims env sources artifact"
  from r have a': "artifact' = artifact\<lparr>Claims := ?cl, Graph := buildGraph env ?cl\<rparr>"
    by (simp add: ResolveConflicts_None)
  have sub: "set ?cl \<subseteq> set (afterEdges artifact)" by (rule set_resolvedClaims)
  have after: "afterEdges artifact' = ?cl"
    by (simp add: afterEdges_alt a' no_targets_after[OF g sub])
  have "survives env sources (Graph artifact') (findConflicts ?cl) c" if c: "c \<in> set ?cl" for c
    unfolding survives_def list_all_iff
  proof
    fix grp assume grp: "grp \<in> set (findConflicts ?cl)"
    let ?w = "winnerOf env sources (Graph artifact') grp"
    from findConflicts_mem[OF grp] obtain k where
      k: "grp = filter (\<lambda>c. participates c \<and> conflictKey c = k) ?cl"
      by auto
    from findConflicts_mem[OF grp] have "grp \<noteq> []" by auto
    then have w: "?w \<in> set grp" by (simp add: winnerOf_mem)
    show "ID c \<notin> set (losingClaimIDs grp ?w)"
    proof
      assume "ID c \<in> set (losingClaimIDs grp ?w)"
      then obtain x where x: "x \<in> set grp" "ID x \<noteq> ID ?w"
        by (auto simp: losingClaimIDs_def)
      from x(1) w k have "ID x = ID ?w"
        by (intro resolved_same_key_same_ID[where env = env and sources = sources and a = artifact]) auto
      with x(2) show False by simp
    qed
  qed
  then have "filter (survives env sources (Graph artifact') (findConflicts ?cl)) ?cl = ?cl"
    by (simp add: filter_id_conv)
  then have "resolvedClaims env sources artifact' = ?cl"
    unfolding resolvedClaims_def[of env sources artifact'] after .
  then show ?thesis
    by (simp add: ResolveConflicts_None a')
qed

theorem ResolveConflicts_idempotent_witness:
  "ResolveConflicts exEnv None Map.empty
     (exArtifact [(exClaim ''a'' Obligation ''src'')\<lparr>Conditions := Some [(''revokes'', DStr ''b'')]\<rparr>,
                  exClaim ''b'' Permission ''src'',
                  exClaim ''p'' Permission ''src'', exClaim ''x'' Prohibition ''src'']) =
     Inr (exArtifact [(exClaim ''a'' Obligation ''src'')\<lparr>Conditions := Some [(''revokes'', DStr ''b'')]\<rparr>,
                      exClaim ''p'' Permission ''src''])
   \<and> ResolveConflicts exEnv None Map.empty
     (exArtifact [(exClaim ''a'' Obligation ''src'')\<lparr>Conditions := Some [(''revokes'', DStr ''b'')]\<rparr>,
                  exClaim ''p'' Permission ''src'']) =
     Inr (exArtifact [(exClaim ''a'' Obligation ''src'')\<lparr>Conditions := Some [(''revokes'', DStr ''b'')]\<rparr>,
                      exClaim ''p'' Permission ''src''])"
proof -
  let ?a = "(exClaim ''a'' Obligation ''src'')\<lparr>Conditions := Some [(''revokes'', DStr ''b'')]\<rparr>"
  let ?A = "exArtifact [?a, exClaim ''b'' Permission ''src'',
                        exClaim ''p'' Permission ''src'', exClaim ''x'' Prohibition ''src'']"
  have g: "Graph ?A = buildGraph exEnv (Claims ?A)"
    by (simp add: exArtifact_def)
  have r: "ResolveConflicts exEnv None Map.empty ?A = Inr (exArtifact [?a, exClaim ''p'' Permission ''src''])"
    by code_simp
  from ResolveConflicts_idempotent[OF g r] r show ?thesis by simp
qed

text \<open>
  C8 as stated fails for an artifact whose graph does not carry the edges its claims
  ask for. Here claim \<open>a\<close> has the condition \<open>revokes: b\<close> but the graph has an
  empty nodes table and no edges (the validator accepts it): the first run revokes
  nothing and rebuilds the graph, now with the edge; the second run drops \<open>b\<close>.
\<close>

theorem ResolveConflicts_idempotent_counterexample:
  "Validate
     \<lparr>artID = ''artifact'', artSourceID = ''src'',
      Claims = [(exClaim ''a'' Obligation ''src'')\<lparr>Conditions := Some [(''revokes'', DStr ''b'')]\<rparr>,
                exClaim ''b'' Permission ''src''],
      Graph = \<lparr>Nodes = Some [], Edges = []\<rparr>, GeneratedAt = 0\<rparr> = None
   \<and> ResolveConflicts exEnv None Map.empty
     \<lparr>artID = ''artifact'', artSourceID = ''src'',
      Claims = [(exClaim ''a'' Obligation ''src'')\<lparr>Conditions := Some [(''revokes'', DStr ''b'')]\<rparr>,
                exClaim ''b'' Permission ''src''],
      Graph = \<lparr>Nodes = Some [], Edges = []\<rparr>, GeneratedAt = 0\<rparr> =
     Inr (exArtifact [(exClaim ''a'' Obligation ''src'')\<lparr>Conditions := Some [(''revokes'', DStr ''b'')]\<rparr>,
                      exClaim ''b'' Permission ''src''])
   \<and> ResolveConflicts exEnv None Map.empty
     (exArtifact [(exClaim ''a'' Obligation ''src'')\<lparr>Conditions := Some [(''revokes'', DStr ''b'')]\<rparr>,
                  exClaim ''b'' Permission ''src'']) =
     Inr (exArtifact [(exClaim ''a'' Obligation ''src'')\<lparr>Conditions := Some [(''revokes'', DStr ''b'')]\<rparr>])
   \<and> Claims (exArtifact [(exClaim ''a'' Obligation ''src'')\<lparr>Conditions := Some [(''revokes'', DStr ''b'')]\<rparr>])
       \<noteq> Claims (exArtifact [(exClaim ''a'' Obligation ''src'')\<lparr>Conditions := Some [(''revokes'', DStr ''b'')]\<rparr>,
                  exClaim ''b'' Permission ''src''])"
proof (intro conjI)
  show "Validate
     \<lparr>artID = ''artifact'', artSourceID = ''src'',
      Claims = [(exClaim ''a'' Obligation ''src'')\<lparr>Conditions := Some [(''revokes'', DStr ''b'')]\<rparr>,
                exClaim ''b'' Permission ''src''],
      Graph = \<lparr>Nodes = Some [], Edges = []\<rparr>, GeneratedAt = 0\<rparr> = None"
    by code_simp
  show "ResolveConflicts exEnv None Map.empty
     \<lparr>artID = ''artifact'', artSourceID = ''src'',
      Claims = [(exClaim ''a'' Obligation ''src'')\<lparr>Conditions := Some [(''revokes'', DStr ''b'')]\<rparr>,
                exClaim ''b'' Permission ''src''],
      Graph = \<lparr>Nodes = Some [], Edges = []\<rparr>, GeneratedAt = 0\<rparr> =
     Inr (exArtifact [(exClaim ''a'' Obligation ''src'')\<lparr>Conditions := Some [(''revokes'', DStr ''b'')]\<rparr>,
                      exClaim ''b'' Permission ''src''])"
    by code_simp
  show "ResolveConflicts exEnv None Map.empty
     (exArtifact [(exClaim ''a'' Obligation ''src'')\<lparr>Conditions := Some [(''revokes'', DStr ''b'')]\<rparr>,
                  exClaim ''b'' Permission ''src'']) =
     Inr (exArtifact [(exClaim ''a'' Obligation ''src'')\<lparr>Conditions := Some [(''revokes'', DStr ''b'')]\<rparr>])"
    by code_simp
  show "Claims (exArtifact [(exClaim ''a'' Obligation ''src'')\<lparr>Conditions := Some [(''revokes'', DStr ''b'')]\<rparr>])
       \<noteq> Claims (exArtifact [(exClaim ''a'' Obligation ''src'')\<lparr>Conditions := Some [(''revokes'', DStr ''b'')]\<rparr>,
                  exClaim ''b'' Permission ''src''])"
    by (simp add: exArtifact_def)
qed

text \<open>
  What precedence resolution does: the winner of a non-empty group is a member whose
  triple (authority order, delegation depth, negated scope specificity) is smallest;
  no member precedes it. The version of a source has no part in the comparison.
\<close>

theorem applyPrecedence_minimal_key:
  assumes "applyPrecedence env sources g artifact = (Some w, None)" and "m \<in> set g"
  shows "w \<in> set g \<and> keyTriple sources (Graph artifact) w \<le> keyTriple sources (Graph artifact) m
         \<and> \<not> precedenceLess sources (Graph artifact) m w"
proof -
  from assms(2) have ne: "g \<noteq> []" by auto
  let ?lt = "precedenceLess sources (Graph artifact)"
  from assms(1) ne have w: "w = hd (sortSlice (sortClaims env) ?lt g)"
    by (simp add: applyPrecedence_def)
  have swo: "strictWeakOrder ?lt" by (rule strictWeakOrder_precedenceLess)
  from assms(2) have "m \<in> set (sortSlice (sortClaims env) ?lt g)" by (simp add: set_sortSlice)
  from hd_ordered_min[OF swo ordered_sortSlice[OF swo] this] w
  have nl: "\<not> ?lt m w" by simp
  moreover have "w \<in> set g" using w ne by (simp add: hd_sortSlice_mem)
  ultimately show ?thesis by (auto simp: precedenceLess_keyTriple)
qed

theorem precedence_ignores_version:
  "comparePrecedenceKeys
     (precedenceKey (sourceA\<lparr>Version := versionA\<rparr>) claimA authorityOrder graph)
     (precedenceKey (sourceB\<lparr>Version := versionB\<rparr>) claimB authorityOrder graph) =
   comparePrecedenceKeys
     (precedenceKey sourceA claimA authorityOrder graph)
     (precedenceKey sourceB claimB authorityOrder graph)"
  by (simp add: precedenceKey_def Let_def)

text \<open>
  C1, evaluated at an input on which the code departs from it. Both sources are
  organizational, so they tie on authority order; the source of \<open>c_old\<close> has
  version 1.0.0 and the source of \<open>c_new\<close> has version 2.0.0, so by the claim
  \<open>c_old\<close> wins and the later key components are disregarded. The version element of
  the key is a \<open>[]int\<close>, which the type switch of \<open>comparePrecedenceKeys\<close> passes
  over, so the comparison goes on to the scope specificity, where \<open>c_new\<close> (one
  jurisdiction) is smaller: \<open>c_new\<close> survives and \<open>c_old\<close> is dropped.
\<close>

theorem ResolveConflicts_version_ignored:
  "parseVersion (Version (exSource ''old'' ''1.0.0'' [])) = [1, 0, 0]
   \<and> parseVersion (Version (exSource ''new'' ''2.0.0'' [])) = [2, 0, 0]
   \<and> srcType (exSource ''old'' ''1.0.0'' []) = srcType (exSource ''new'' ''2.0.0'' [])
   \<and> map_sum id (map ID \<circ> Claims)
        (ResolveConflicts exEnv None
           [''old'' \<mapsto> exSource ''old'' ''1.0.0'' [], ''new'' \<mapsto> exSource ''new'' ''2.0.0'' []]
           (exArtifact
              [exClaim ''c_old'' Permission ''old'',
               (exClaim ''c_new'' Prohibition ''new'')
                 \<lparr>Scope := zeroScope\<lparr>Jurisdictions := [''US'']\<rparr>\<rparr>])) = Inr [''c_new'']"
  by code_simp

section \<open>Properties of the pipeline driver\<close>

text \<open>
  C2, evaluated at an input on which the code departs from it. The source has one
  valid claim \<open>c1\<close>; the context is cancelled after \<open>Normalize\<close> has read it and
  before \<open>ResolveConflicts\<close> reads it. The artifact that enters the resolver is
  valid and has the claim ID \<open>c1\<close>, but the failure reports no claim IDs: the
  variable \<open>artifact\<close> was overwritten by the empty artifact that \<open>ResolveConflicts\<close>
  returns with its error.
\<close>

theorem ProcessWithContext_resolution_failure_ids:
  "snd (Normalize exEnv None ''artifact'' 0 Map.empty
          (exSource ''src'' ''1.0'' [exRecord ''c1'' ''permission''])) =
     Inr (exArtifact [exClaim ''c1'' Permission ''src''])
   \<and> Validate (exArtifact [exClaim ''c1'' Permission ''src'']) = None
   \<and> getClaimIDs (Claims (exArtifact [exClaim ''c1'' Permission ''src''])) = [''c1'']
   \<and> snd (ProcessWithContext exEnv (\<lambda>k. if k = 0 then None else Some Canceled)
          ''artifact'' 0 Map.empty (exSource ''src'' ''1.0'' [exRecord ''c1'' ''permission''])) =
       Inl \<lparr>FailureStage = ''resolution'', ViolatedInvariant = ''context canceled'',
            InvolvedClaimIDs = [], FailClosed = True\<rparr>"
  by code_simp

text \<open>
  Every failure of the pipeline, by stage: a normalization failure carries the message
  of the error and no claim IDs; a validation failure carries the message and the
  sorted claim IDs of the normalized artifact; a resolution failure happens only when
  the context is cancelled and carries the message and no claim IDs. All are marked
  fail-closed.
\<close>

theorem ProcessWithContext_failure_shape:
  assumes "snd (ProcessWithContext env ctx uuid now sources source) = Inl failure"
  shows "FailClosed failure \<and>
     ((\<exists>err. snd (Normalize env (ctx 0) uuid now sources source) = Inl err \<and>
         FailureStage failure = ''normalization'' \<and> ViolatedInvariant failure = Error err \<and>
         InvolvedClaimIDs failure = []) \<or>
      (\<exists>artifact err. snd (Normalize env (ctx 0) uuid now sources source) = Inr artifact \<and>
         Validate artifact = Some err \<and>
         FailureStage failure = ''validation'' \<and> ViolatedInvariant failure = Error err \<and>
         InvolvedClaimIDs failure = sort (map ID (Claims artifact))) \<or>
      (\<exists>artifact err. snd (Normalize env (ctx 0) uuid now sources source) = Inr artifact \<and>
         Validate artifact = None \<and> ctx 1 = Some err \<and>
         FailureStage failure = ''resolution'' \<and> ViolatedInvariant failure = Error err \<and>
         InvolvedClaimIDs failure = []))"
proof -
  obtain sources' normalized where
    n: "Normalize env (ctx 0) uuid now sources source = (sources', normalized)"
    by (cases "Normalize env (ctx 0) uuid now sources source") auto
  show ?thesis
  proof (cases normalized)
    case (Inl err)
    with assms n show ?thesis by (auto simp: ProcessWithContext_def)
  next
    case (Inr artifact)
    note a = Inr
    show ?thesis
    proof (cases "Validate artifact")
      case (Some err)
      with assms n a show ?thesis by (auto simp: ProcessWithContext_def getClaimIDs_def)
    next
      case None
      note v = None
      show ?thesis
      proof (cases "ctx 1")
        case None
        with assms n a v show ?thesis
          by (simp add: ProcessWithContext_def Let_def ResolveConflicts_None)
      next
        case (Some err)
        with assms n a v show ?thesis
          by (auto simp: ProcessWithContext_def Let_def ResolveConflicts_Some
              returnedArtifact_def zeroArtifact_def getClaimIDs_def)
      qed
    qed
  qed
qed

text \<open>
  C9. When a claim record fails to parse, \<open>Normalize\<close> returns the parse failure and
  the source table it leaves behind has the source registered under its ID: the
  registration happens before parsing and is not undone.
\<close>

theorem Normalize_registers_before_parsing:
  assumes "srcID source \<noteq> []"
    and "map_of (Metadata source) ''claims'' = Some (DList claimsData)"
    and "DMap claimDict \<in> set claimsData"
    and "parseClaim env claimDict (srcID source) = Inl e"
  shows "Normalize env None uuid now sources source =
     (sources(srcID source \<mapsto> source),
      Inl (CompilationError ''normalization''
             (''failed to parse '' @
                itoa (length (snd (parseClaims env (srcID source) claimsData))) @ '' claims'')
             [] (Some (hd (snd (parseClaims env (srcID source) claimsData))))))"
proof -
  obtain claims parseErrors where
    p: "parseClaims env (srcID source) claimsData = (claims, parseErrors)"
    by (cases "parseClaims env (srcID source) claimsData") auto
  with parseClaims_error[OF assms(3,4)] have "parseErrors \<noteq> []" by simp
  with p assms(1,2) show ?thesis
    by (simp add: Normalize_def Let_def)
qed

theorem Normalize_registers_before_parsing_witness:
  "fst (Normalize exEnv None ''artifact'' 0 Map.empty (exSource ''src'' ''1.0'' [exRecord ''c1'' ''bad'']))
     ''src'' = Some (exSource ''src'' ''1.0'' [exRecord ''c1'' ''bad''])
   \<and> snd (Normalize exEnv None ''artifact'' 0 Map.empty (exSource ''src'' ''1.0'' [exRecord ''c1'' ''bad''])) =
       Inl (CompilationError ''normalization'' ''failed to parse 1 claims'' []
              (Some (ValidationError ''type'' ''invalid claim type: bad'' None)))"
proof -
  let ?src = "exSource ''src'' ''1.0'' [exRecord ''c1'' ''bad'']"
  have 1: "srcID ?src \<noteq> []" by (simp add: exSource_def)
  have 2: "map_of (Metadata ?src) ''claims'' = Some (DList [exRecord ''c1'' ''bad''])"
    by (simp add: exSource_def)
  have 3: "DMap [(''id'', DStr ''c1''), (''type'', DStr ''bad''), (''subject'', DStr ''user''),
                 (''action'', DStr ''read''), (''resource'', DStr ''/data'')]
             \<in> set [exRecord ''c1'' ''bad'']"
    by (simp add: exRecord_def)
  have 4: "parseClaim exEnv [(''id'', DStr ''c1''), (''type'', DStr ''bad''), (''subject'', DStr ''user''),
                 (''action'', DStr ''read''), (''resource'', DStr ''/data'')] (srcID ?src) =
           Inl (ValidationError ''type'' ''invalid claim type: bad'' None)"
    by code_simp
  have 5: "snd (parseClaims exEnv ''src'' [exRecord ''c1'' ''bad'']) =
           [ValidationError ''type'' ''invalid claim type: bad'' None]"
    by code_simp
  have 6: "itoa (Suc 0) = ''1''" by code_simp
  have 7: "srcID ?src = ''src''" by (simp add: exSource_def)
  note n = Normalize_registers_before_parsing
         [OF 1 2 3 4, where uuid = "''artifact''" and now = 0 and sources = Map.empty]
  show ?thesis by (simp add: n 7 5 6 del: parseClaims.simps)
qed

section \<open>Properties of the proof emitter\<close>

text \<open>
  C6. Two artifacts that agree on every field but the ID and the generation time
  (that is, on the source ID, the claims and the graph) have proof texts that differ
  only in the values of the \<open>artifact_id\<close> and \<open>generated_at\<close> entries: both
  texts consist of the same three parts, before the encoded artifact ID, between it
  and the encoded generation time, and after it. With those two values masked, the
  texts that \<open>EmitProof\<close> returns are byte-identical.
\<close>

theorem EmitProof_deterministic:
  assumes "artSourceID a1 = artSourceID a2" and "Claims a1 = Claims a2"
    and "Graph a1 = Graph a2"
  shows "\<exists>pre mid post.
           EmitProof env a1 =
             pre @ jsonString env (artID a1) @ mid @
             jsonString env (timeFormat env (GeneratedAt a1)) @ post \<and>
           EmitProof env a2 =
             pre @ jsonString env (artID a2) @ mid @
             jsonString env (timeFormat env (GeneratedAt a2)) @ post"
proof (intro exI conjI)
  show "EmitProof env a1 =
          proofPre env @ jsonString env (artID a1) @ proofMid env (Claims a1) @
          jsonString env (timeFormat env (GeneratedAt a1)) @
          proofPost env (Graph a1) (artSourceID a1)"
    by (rule EmitProof_frame)
  show "EmitProof env a2 =
          proofPre env @ jsonString env (artID a2) @ proofMid env (Claims a1) @
          jsonString env (timeFormat env (GeneratedAt a2)) @
          proofPost env (Graph a1) (artSourceID a1)"
    unfolding assms by (rule EmitProof_frame)
qed

theorem EmitProof_deterministic_witness:
  "(\<exists>pre mid post.
      EmitProof exEnv (exArtifact [exClaim ''p'' Permission ''src'']) =
        pre @ jsonString exEnv ''artifact'' @ mid @
        jsonString exEnv (timeFormat exEnv 0) @ post \<and>
      EmitProof exEnv ((exArtifact [exClaim ''p'' Permission ''src''])
                         \<lparr>artID := ''another'', GeneratedAt := 42\<rparr>) =
        pre @ jsonString exEnv ''another'' @ mid @
        jsonString exEnv (timeFormat exEnv 42) @ post)
   \<and> EmitProof exEnv (exArtifact [exClaim ''p'' Permission ''src'']) \<noteq>
     EmitProof exEnv ((exArtifact [exClaim ''p'' Permission ''src''])
                        \<lparr>artID := ''another'', GeneratedAt := 42\<rparr>)"
proof -
  have "EmitProof exEnv (exArtifact [exClaim ''p'' Permission ''src'']) \<noteq>
     EmitProof exEnv ((exArtifact [exClaim ''p'' Permission ''src''])
                        \<lparr>artID := ''another'', GeneratedAt := 42\<rparr>)"
    by code_simp
  then show ?thesis
    using EmitProof_deterministic
      [of "exArtifact [exClaim ''p'' Permission ''src'']"
          "(exArtifact [exClaim ''p'' Permission ''src''])\<lparr>artID := ''another'', GeneratedAt := 42\<rparr>"
          exEnv]
    by (simp add: exArtifact_def)
qed

section \<open>Properties of the runtime interface\<close>

text \<open>
  C3, as the code has it. Among the claims that match the query: if one is a
  Prohibition, the answer is a denial with the ID of a matching Prohibition; otherwise,
  if one is a Permission, the answer is an allowance with the ID of a matching
  Permission; otherwise the answer is a denial with the artifact's ID and the reason
  \<open>No applicable authority found - failing closed\<close>.
\<close>

theorem IsAuthorized_decision:
  "((\<exists>c \<in> set (applicableClaims artifact subject action resource). Type c = Prohibition) \<longrightarrow>
      (\<exists>c \<in> set (applicableClaims artifact subject action resource). Type c = Prohibition \<and>
         IsAuthorized env artifact subject action resource =
           \<lparr>allowed = False, authority_id = ID c, reason = ''Prohibited by authority'',
            scope = scopeToDict env (Scope c)\<rparr>)) \<and>
   (\<not> (\<exists>c \<in> set (applicableClaims artifact subject action resource). Type c = Prohibition) \<and>
    (\<exists>c \<in> set (applicableClaims artifact subject action resource). Type c = Permission) \<longrightarrow>
      (\<exists>c \<in> set (applicableClaims artifact subject action resource). Type c = Permission \<and>
         IsAuthorized env artifact subject action resource =
           \<lparr>allowed = True, authority_id = ID c, reason = ''Permitted by authority'',
            scope = scopeToDict env (Scope c)\<rparr>)) \<and>
   (\<not> (\<exists>c \<in> set (applicableClaims artifact subject action resource). Type c = Prohibition) \<and>
    \<not> (\<exists>c \<in> set (applicableClaims artifact subject action resource). Type c = Permission) \<longrightarrow>
      IsAuthorized env artifact subject action resource =
        \<lparr>allowed = False, authority_id = artID artifact,
         reason = ''No applicable authority found - failing closed'', scope = []\<rparr>)"
proof -
  let ?app = "applicableClaims artifact subject action resource"
  show ?thesis
  proof (cases "find (\<lambda>claim. Type claim = Prohibition) ?app")
    case (Some c)
    from find_Some_mem[OF Some] Some show ?thesis
      by (auto simp: IsAuthorized_def Let_def)
  next
    case None
    note noP = None
    then have np: "\<not> (\<exists>c \<in> set ?app. Type c = Prohibition)"
      by (simp add: find_None_iff')
    show ?thesis
    proof (cases "find (\<lambda>claim. Type claim = Permission) ?app")
      case (Some c)
      from find_Some_mem[OF Some] Some noP np show ?thesis
        by (auto simp: IsAuthorized_def Let_def)
    next
      case None
      then have "\<not> (\<exists>c \<in> set ?app. Type c = Permission)"
        by (simp add: find_None_iff')
      with None noP np show ?thesis
        by (auto simp: IsAuthorized_def Let_def)
    qed
  qed
qed

theorem IsAuthorized_decision_witness:
  "IsAuthorized exEnv (exArtifact [exClaim ''p'' Permission ''src'', exClaim ''x'' Prohibition ''src''])
     ''user'' ''read'' ''/data'' =
     \<lparr>allowed = False, authority_id = ''x'', reason = ''Prohibited by authority'',
      scope = scopeToDict exEnv zeroScope\<rparr>
   \<and> IsAuthorized exEnv (exArtifact [exClaim ''p'' Permission ''src'']) ''user'' ''read'' ''/data'' =
     \<lparr>allowed = True, authority_id = ''p'', reason = ''Permitted by authority'',
      scope = scopeToDict exEnv zeroScope\<rparr>
   \<and> IsAuthorized exEnv (exArtifact [exClaim ''p'' Permission ''src'']) ''user'' ''write'' ''/data'' =
     \<lparr>allowed = False, authority_id = ''artifact'',
      reason = ''No applicable authority found - failing closed'', scope = []\<rparr>"
proof -
  have a1: "applicableClaims
       (exArtifact [exClaim ''p'' Permission ''src'', exClaim ''x'' Prohibition ''src''])
       ''user'' ''read'' ''/data'' =
     [exClaim ''p'' Permission ''src'', exClaim ''x'' Prohibition ''src'']"
    by (simp add: applicableClaims_def exArtifact_def exClaim_def matches_def)
  have a2: "applicableClaims (exArtifact [exClaim ''p'' Permission ''src''])
       ''user'' ''read'' ''/data'' = [exClaim ''p'' Permission ''src'']"
    by (simp add: applicableClaims_def exArtifact_def exClaim_def matches_def)
  have a3: "applicableClaims (exArtifact [exClaim ''p'' Permission ''src''])
       ''user'' ''write'' ''/data'' = []"
    by (simp add: applicableClaims_def exArtifact_def exClaim_def matches_def)
  have t: "Type (exClaim ''p'' Permission ''src'') = Permission"
    "Type (exClaim ''x'' Prohibition ''src'') = Prohibition"
    "ID (exClaim ''p'' Permission ''src'') = ''p''" "ID (exClaim ''x'' Prohibition ''src'') = ''x''"
    "Scope (exClaim ''p'' Permission ''src'') = zeroScope"
    "Scope (exClaim ''x'' Prohibition ''src'') = zeroScope"
    "Permission \<noteq> Prohibition" "artID (exArtifact [exClaim ''p'' Permission ''src'']) = ''artifact''"
    by (simp_all add: exClaim_def exArtifact_def type_consts)
  show ?thesis
    using IsAuthorized_decision
        [where artifact = "exArtifact [exClaim ''p'' Permission ''src'', exClaim ''x'' Prohibition ''src'']"
           and subject = "''user''" and action = "''read''" and resource = "''/data''" and env = exEnv]
      IsAuthorized_decision
        [where artifact = "exArtifact [exClaim ''p'' Permission ''src'']"
           and subject = "''user''" and action = "''read''" and resource = "''/data''" and env = exEnv]
      IsAuthorized_decision
        [where artifact = "exArtifact [exClaim ''p'' Permission ''src'']"
           and subject = "''user''" and action = "''write''" and resource = "''/data''" and env = exEnv]
    by (simp add: a1 a2 a3 t)
qed

text \<open>
  C3 as stated names a reason the code never gives: with no matching claim the reason
  is \<open>No applicable authority found - failing closed\<close>, not the specification's
  \<open>no applicable authority\<close>, a dash (the three bytes E2 80 94), \<open>failing closed\<close>.
\<close>

theorem IsAuthorized_reason_counterexample:
  "applicableClaims (exArtifact []) ''user'' ''read'' ''/data'' = []
   \<and> reason (IsAuthorized exEnv (exArtifact []) ''user'' ''read'' ''/data'') =
       ''No applicable authority found - failing closed''
   \<and> reason (IsAuthorized exEnv (exArtifact []) ''user'' ''read'' ''/data'') \<noteq>
       ''no applicable authority '' @ [CHR 0xE2, CHR 0x80, CHR 0x94] @ '' failing closed''"
  by (simp add: applicableClaims_def IsAuthorized_def exArtifact_def)

end
